theory Spec2Isabelle
  imports Complex_Main "HOL-Library.Word"
begin

section \<open>Theme toggle (getTheme, setTheme, toggleTheme, initTheme)\<close>

text \<open>
  The theme code is the same in \<^verbatim>\<open>js/script.js\<close> and \<^verbatim>\<open>Mdule-1/js/script.js\<close>.
  It touches three places: the \<^verbatim>\<open>data-theme\<close> attribute of the document element
  (absent until first set), the \<^verbatim>\<open>theme\<close> entry of localStorage (\<^verbatim>\<open>getItem\<close> gives
  \<^verbatim>\<open>null\<close> when absent) and the text of the icon element, which may be missing from the
  page. The two glyphs written by \<^verbatim>\<open>setTheme\<close> are kept as constructors.
\<close>

datatype glyph = Sun | Moon | Markup string

record theme_state =
  data_theme :: "string option"
  stored_theme :: "string option"
  themeIcon :: "glyph option"

text \<open>
  localStorage can refuse a call: reading the \<^verbatim>\<open>localStorage\<close> property throws a
  SecurityError when the page may not use storage, and \<^verbatim>\<open>setItem\<close> throws a
  QuotaExceededError when the entry cannot be written. The theme code catches nothing,
  so an exception ends the operation where it is thrown and what was written before
  stays written. What storage does is the environment's choice at each operation.
\<close>

datatype js_error = TypeError | SecurityError | QuotaExceededError

record storage_env =
  access_denied :: bool
  quota_exceeded :: bool

text \<open>
  The outcome of an operation: it returned, in this state, or it threw, leaving this
  state.
\<close>

datatype 'a outcome_of = Returned 'a | Threw js_error 'a

fun state_of :: "'a outcome_of \<Rightarrow> 'a" where
  "state_of (Returned s) = s"
| "state_of (Threw e s) = s"

text \<open>
  \<^verbatim>\<open>localStorage.getItem('theme') || 'light'\<close>: the right operand is taken for
  \<^verbatim>\<open>null\<close> and for the empty string, the two falsy values a stored entry can give.
\<close>

definition getTheme :: "storage_env \<Rightarrow> theme_state \<Rightarrow> js_error + string" where
  "getTheme env s =
     (if access_denied env then Inl SecurityError
      else Inr (case stored_theme s of
                  None \<Rightarrow> ''light''
                | Some v \<Rightarrow> if v = [] then ''light'' else v))"

text \<open>
  \<^verbatim>\<open>setTheme\<close> writes the attribute first, then the stored entry, then the icon; an
  exception from \<^verbatim>\<open>localStorage.setItem\<close> leaves the attribute written and the entry
  and the icon as they were.
\<close>

definition setTheme :: "storage_env \<Rightarrow> string \<Rightarrow> theme_state \<Rightarrow> theme_state outcome_of" where
  "setTheme env theme s =
     (let s1 = s\<lparr>data_theme := Some theme\<rparr>
      in if access_denied env then Threw SecurityError s1
         else if quota_exceeded env then Threw QuotaExceededError s1
         else (let s2 = s1\<lparr>stored_theme := Some theme\<rparr>
               in case themeIcon s2 of
                    None \<Rightarrow> Returned s2
                  | Some _ \<Rightarrow>
                      Returned (s2\<lparr>themeIcon := Some (if theme = ''dark'' then Sun else Moon)\<rparr>)))"

definition toggleTheme :: "storage_env \<Rightarrow> theme_state \<Rightarrow> theme_state outcome_of" where
  "toggleTheme env s =
     (case getTheme env s of
        Inl e \<Rightarrow> Threw e s
      | Inr currentTheme \<Rightarrow>
          (let newTheme = (if currentTheme = ''dark'' then ''light'' else ''dark'')
           in setTheme env newTheme s))"

definition initTheme :: "storage_env \<Rightarrow> theme_state \<Rightarrow> theme_state outcome_of" where
  "initTheme env s =
     (case getTheme env s of
        Inl e \<Rightarrow> Threw e s
      | Inr savedTheme \<Rightarrow> setTheme env savedTheme s)"

text \<open>
  The theme operations a page can perform, and runs of them. Each operation of a run
  meets the storage of its moment; after an operation that threw, the page goes on from
  the state the exception left.
\<close>

datatype theme_op = InitTheme | SetTheme string | ToggleTheme

fun theme_step :: "storage_env \<Rightarrow> theme_op \<Rightarrow> theme_state \<Rightarrow> theme_state outcome_of" where
  "theme_step env InitTheme s = initTheme env s"
| "theme_step env (SetTheme t) s = setTheme env t s"
| "theme_step env ToggleTheme s = toggleTheme env s"

fun theme_run :: "(storage_env \<times> theme_op) list \<Rightarrow> theme_state \<Rightarrow> theme_state" where
  "theme_run [] s = s"
| "theme_run ((env, x) # xs) s = theme_run xs (state_of (theme_step env x s))"

text \<open>The persisted theme as the page reads it, with the \<^verbatim>\<open>light\<close> default.\<close>

definition persisted_theme :: "theme_state \<Rightarrow> string" where
  "persisted_theme s =
     (case stored_theme s of
        None \<Rightarrow> ''light''
      | Some v \<Rightarrow> if v = [] then ''light'' else v)"

text \<open>Storage that works, and storage that is full.\<close>

definition storage_ok :: storage_env where
  "storage_ok = \<lparr>access_denied = False, quota_exceeded = False\<rparr>"

definition storage_full :: storage_env where
  "storage_full = \<lparr>access_denied = False, quota_exceeded = True\<rparr>"

section \<open>Hamburger menu (toggleMobileMenu, Mdule-1 only)\<close>

text \<open>
  \<^verbatim>\<open>hamburger\<close> and \<^verbatim>\<open>navMenu\<close> are looked up once at load and may be \<^verbatim>\<open>null\<close>.
  A class list is the list of its tokens: \<^verbatim>\<open>add\<close> appends a token that is not there,
  \<^verbatim>\<open>remove\<close> deletes it, \<^verbatim>\<open>contains\<close> tests it.
\<close>

type_synonym classList = "string list"

definition cl_contains :: "classList \<Rightarrow> string \<Rightarrow> bool" where
  "cl_contains cl t = (t \<in> set cl)"

definition cl_add :: "string \<Rightarrow> classList \<Rightarrow> classList" where
  "cl_add t cl = (if t \<in> set cl then cl else cl @ [t])"

definition cl_remove :: "string \<Rightarrow> classList \<Rightarrow> classList" where
  "cl_remove t cl = filter (\<lambda>x. x \<noteq> t) cl"

record hamburger_el =
  hb_classList :: classList
  aria_expanded :: "string option"

record menu_state =
  hamburger :: "hamburger_el option"
  navMenu :: "classList option"
  body_overflow :: string

definition toggleMobileMenu :: "menu_state \<Rightarrow> menu_state" where
  "toggleMobileMenu s =
     (case (hamburger s, navMenu s) of
        (Some hb, Some nm) \<Rightarrow>
          (let isActive = cl_contains nm ''active'' in
           if isActive then
             s\<lparr>navMenu := Some (cl_remove ''active'' nm),
               hamburger := Some (hb\<lparr>hb_classList := cl_remove ''active'' (hb_classList hb),
                                     aria_expanded := Some ''false''\<rparr>),
               body_overflow := ''''\<rparr>
           else
             s\<lparr>navMenu := Some (cl_add ''active'' nm),
               hamburger := Some (hb\<lparr>hb_classList := cl_add ''active'' (hb_classList hb),
                                     aria_expanded := Some ''true''\<rparr>),
               body_overflow := ''hidden''\<rparr>)
      | _ \<Rightarrow> s)"

text \<open>The four observations the menu code keeps in step.\<close>

definition menu_open :: "menu_state \<Rightarrow> bool" where
  "menu_open s = (case navMenu s of Some nm \<Rightarrow> cl_contains nm ''active'' | None \<Rightarrow> False)"

definition hamburger_active :: "menu_state \<Rightarrow> bool" where
  "hamburger_active s =
     (case hamburger s of Some hb \<Rightarrow> cl_contains (hb_classList hb) ''active'' | None \<Rightarrow> False)"

definition hamburger_aria :: "menu_state \<Rightarrow> string option" where
  "hamburger_aria s = (case hamburger s of Some hb \<Rightarrow> aria_expanded hb | None \<Rightarrow> None)"

definition menu_view :: "menu_state \<Rightarrow> bool \<times> bool \<times> string option \<times> string" where
  "menu_view s = (menu_open s, hamburger_active s, hamburger_aria s, body_overflow s)"

text \<open>
  The state the menu code itself produces: either everything says closed or everything
  says open.
\<close>

definition menu_consistent :: "menu_state \<Rightarrow> bool" where
  "menu_consistent s =
     (menu_view s = (False, False, Some ''false'', '''') \<or>
      menu_view s = (True, True, Some ''true'', ''hidden''))"

text \<open>Concrete pages used to evaluate the theme and menu code.\<close>

definition stale_tab_state :: theme_state where
  "stale_tab_state =
     \<lparr>data_theme = Some ''light'', stored_theme = Some ''dark'', themeIcon = Some Moon\<rparr>"

definition dark_page_state :: theme_state where
  "dark_page_state =
     \<lparr>data_theme = Some ''dark'', stored_theme = Some ''dark'', themeIcon = Some Sun\<rparr>"

definition light_unset_state :: theme_state where
  "light_unset_state =
     \<lparr>data_theme = Some ''light'', stored_theme = None, themeIcon = Some Moon\<rparr>"

definition first_visit_state :: theme_state where
  "first_visit_state = \<lparr>data_theme = None, stored_theme = None, themeIcon = Some (Markup [])\<rparr>"

definition lightbox_open_menu_closed :: menu_state where
  "lightbox_open_menu_closed =
     \<lparr>hamburger = Some \<lparr>hb_classList = [''hamburger''], aria_expanded = Some ''false''\<rparr>,
      navMenu = Some [''nav-menu''],
      body_overflow = ''hidden''\<rparr>"

definition open_menu_state :: menu_state where
  "open_menu_state =
     \<lparr>hamburger = Some \<lparr>hb_classList = [''hamburger'', ''active''],
                         aria_expanded = Some ''true''\<rparr>,
      navMenu = Some [''nav-menu'', ''active''],
      body_overflow = ''hidden''\<rparr>"

section \<open>Active-section highlighting (highlightActiveSection)\<close>

text \<open>
  \<^verbatim>\<open>sections\<close> are the \<^verbatim>\<open>section[id]\<close> elements and \<^verbatim>\<open>navLinks\<close> the
  \<^verbatim>\<open>nav a[href^="#"]\<close> elements, both in document order. \<^verbatim>\<open>offsetTop\<close> and
  \<^verbatim>\<open>offsetHeight\<close> are integers; \<^verbatim>\<open>window.pageYOffset\<close> may be fractional.
  Of a link the routine reads \<^verbatim>\<open>href\<close> and writes \<^verbatim>\<open>style.background\<close>.
\<close>

record section_el =
  sec_id :: string
  offsetTop :: int
  offsetHeight :: int

record nav_link =
  href :: string
  background :: string

text \<open>The body of the inner \<^verbatim>\<open>navLinks.forEach\<close>, for one link.\<close>

definition mark_link :: "string \<Rightarrow> nav_link \<Rightarrow> nav_link" where
  "mark_link sectionId link =
     (let l1 = link\<lparr>background := ''''\<rparr>
      in if href l1 = ''#'' @ sectionId then l1\<lparr>background := ''var(--teal)''\<rparr> else l1)"

text \<open>The test of the \<^verbatim>\<open>if\<close>, with \<^verbatim>\<open>sectionTop = section.offsetTop - 100\<close>.\<close>

definition span_hit :: "real \<Rightarrow> section_el \<Rightarrow> bool" where
  "span_hit scrollY section =
     (let sectionHeight = offsetHeight section;
          sectionTop = offsetTop section - 100
      in scrollY > of_int sectionTop \<and> scrollY \<le> of_int (sectionTop + sectionHeight))"

text \<open>The body of the outer \<^verbatim>\<open>sections.forEach\<close>, for one section.\<close>

definition highlight_step :: "real \<Rightarrow> section_el \<Rightarrow> nav_link list \<Rightarrow> nav_link list" where
  "highlight_step scrollY section links =
     (if span_hit scrollY section then map (mark_link (sec_id section)) links else links)"

definition highlightActiveSection ::
    "real \<Rightarrow> section_el list \<Rightarrow> nav_link list \<Rightarrow> nav_link list" where
  "highlightActiveSection scrollY sections links = fold (highlight_step scrollY) sections links"

text \<open>A link is marked when it carries the highlight colour.\<close>

definition marked :: "nav_link \<Rightarrow> bool" where
  "marked link = (background link = ''var(--teal)'')"

text \<open>
  The span as the specification writes it,
  \<^verbatim>\<open>[offsetTop-100, offsetTop-100+height]\<close>, both ends included.
\<close>

definition in_closed_span :: "real \<Rightarrow> section_el \<Rightarrow> bool" where
  "in_closed_span y section =
     (of_int (offsetTop section - 100) \<le> y \<and>
      y \<le> of_int (offsetTop section - 100 + offsetHeight section))"

text \<open>A page with one section and its nav link, not yet highlighted.\<close>

definition about_section :: section_el where
  "about_section = \<lparr>sec_id = ''about'', offsetTop = 600, offsetHeight = 400\<rparr>"

definition about_link :: nav_link where
  "about_link = \<lparr>href = ''#about'', background = ''''\<rparr>"

definition gallery_section :: section_el where
  "gallery_section = \<lparr>sec_id = ''gallery'', offsetTop = 1000, offsetHeight = 300\<rparr>"

definition gallery_link :: nav_link where
  "gallery_link = \<lparr>href = ''#gallery'', background = ''''\<rparr>"

section \<open>Lazy image loading (imageObserver)\<close>

text \<open>
  An image has its \<^verbatim>\<open>src\<close>, its \<^verbatim>\<open>data-src\<close> attribute (read as
  \<^verbatim>\<open>img.dataset.src\<close>, \<^verbatim>\<open>undefined\<close> when the attribute is absent) and its
  \<^verbatim>\<open>alt\<close> text. The images of the page are a list in document order and an image is
  named by its position. The observer keeps the positions it watches.
\<close>

record img_el =
  src :: "string option"
  data_src :: "string option"
  alt :: string

record lazy_state =
  images :: "img_el list"
  observed :: "nat list"

text \<open>
  \<^verbatim>\<open>document.querySelectorAll('img[data-src]').forEach(img => imageObserver.observe(img))\<close>:
  the selector takes the images that carry the attribute, whatever its value.
\<close>

definition observe_lazy_images :: "img_el list \<Rightarrow> lazy_state" where
  "observe_lazy_images imgs =
     \<lparr>images = imgs,
      observed = filter (\<lambda>i. data_src (imgs ! i) \<noteq> None) [0..<length imgs]\<rparr>"

record entry =
  isIntersecting :: bool
  target :: nat

text \<open>
  The body of \<^verbatim>\<open>entries.forEach\<close>. \<^verbatim>\<open>if (img.dataset.src)\<close> holds for a value
  that is defined and not the empty string. An entry always names an element of the
  page; a position outside the page changes nothing.
\<close>

definition on_entry :: "entry \<Rightarrow> lazy_state \<Rightarrow> lazy_state" where
  "on_entry e s =
     (if isIntersecting e \<and> target e < length (images s) then
        (let img = images s ! target e in
         case data_src img of
           None \<Rightarrow> s
         | Some d \<Rightarrow>
             if d = [] then s
             else s\<lparr>images := (images s)[target e := img\<lparr>src := Some d, data_src := None\<rparr>],
                    observed := removeAll (target e) (observed s)\<rparr>)
      else s)"

definition imageObserver_callback :: "entry list \<Rightarrow> lazy_state \<Rightarrow> lazy_state" where
  "imageObserver_callback entries s = fold on_entry entries s"

text \<open>Any number of deliveries, one batch of entries each.\<close>

definition deliver :: "entry list list \<Rightarrow> lazy_state \<Rightarrow> lazy_state" where
  "deliver batches s = fold imageObserver_callback batches s"

definition sample_images :: "img_el list" where
  "sample_images =
     [\<lparr>src = Some ''logo.png'', data_src = None, alt = ''logo''\<rparr>,
      \<lparr>src = None, data_src = Some ''tree.jpg'', alt = ''tree''\<rparr>]"

section \<open>Strings of the contact form\<close>

text \<open>
  The value of an input is a JavaScript string: a sequence of 16-bit code units, whose
  \<^verbatim>\<open>length\<close> counts code units. Class names, style values and the fixed messages of
  the script are plain ASCII and are kept as HOL strings.
\<close>

type_synonym code_unit = "16 word"
type_synonym js_string = "code_unit list"

definition js :: "string \<Rightarrow> js_string" where
  "js s = map (\<lambda>c. of_nat (of_char c)) s"

text \<open>
  The code units that \<^verbatim>\<open>String.prototype.trim\<close> strips and that \<^verbatim>\<open>\s\<close> matches
  in a regular expression without the unicode flag: the ECMAScript white space and line
  terminator code points.
\<close>

definition js_whitespace :: "code_unit \<Rightarrow> bool" where
  "js_whitespace c =
     (c = 0x9 \<or> c = 0xA \<or> c = 0xB \<or> c = 0xC \<or> c = 0xD \<or> c = 0x20 \<or> c = 0xA0 \<or>
      c = 0x1680 \<or> (0x2000 \<le> c \<and> c \<le> 0x200A) \<or> c = 0x2028 \<or> c = 0x2029 \<or>
      c = 0x202F \<or> c = 0x205F \<or> c = 0x3000 \<or> c = 0xFEFF)"

definition js_trim :: "js_string \<Rightarrow> js_string" where
  "js_trim s = rev (dropWhile js_whitespace (rev (dropWhile js_whitespace s)))"

definition at_sign :: code_unit where
  "at_sign = 0x40"

definition full_stop :: code_unit where
  "full_stop = 0x2E"

section \<open>The regular expression of validateEmail\<close>

text \<open>
  \<^verbatim>\<open>/^[^\s@]+@[^\s@]+\.[^\s@]+$/\<close> is kept as a term: negated character classes,
  literal code units, sequence and \<^verbatim>\<open>+\<close>. With \<^verbatim>\<open>^\<close> and \<^verbatim>\<open>$\<close> at its two ends
  and no flags, \<^verbatim>\<open>test\<close> asks whether the whole string matches; it is computed by
  taking the derivative of the expression by each code unit in turn.
\<close>

datatype class_item = Whitespace | Unit code_unit

fun item_has :: "class_item \<Rightarrow> code_unit \<Rightarrow> bool" where
  "item_has Whitespace c = js_whitespace c"
| "item_has (Unit u) c = (c = u)"

datatype regex =
    Never
  | Empty
  | Lit code_unit
  | NoneOf "class_item list"
  | Then regex regex
  | Or regex regex
  | Many regex

definition OneOrMore :: "regex \<Rightarrow> regex" where
  "OneOrMore r = Then r (Many r)"

fun rx_null :: "regex \<Rightarrow> bool" where
  "rx_null Never = False"
| "rx_null Empty = True"
| "rx_null (Lit u) = False"
| "rx_null (NoneOf items) = False"
| "rx_null (Then r q) = (rx_null r \<and> rx_null q)"
| "rx_null (Or r q) = (rx_null r \<or> rx_null q)"
| "rx_null (Many r) = True"

fun rx_after :: "code_unit \<Rightarrow> regex \<Rightarrow> regex" where
  "rx_after c Never = Never"
| "rx_after c Empty = Never"
| "rx_after c (Lit u) = (if c = u then Empty else Never)"
| "rx_after c (NoneOf items) = (if list_ex (\<lambda>i. item_has i c) items then Never else Empty)"
| "rx_after c (Then r q) =
     (if rx_null r then Or (Then (rx_after c r) q) (rx_after c q) else Then (rx_after c r) q)"
| "rx_after c (Or r q) = Or (rx_after c r) (rx_after c q)"
| "rx_after c (Many r) = Then (rx_after c r) (Many r)"

definition rx_test :: "regex \<Rightarrow> js_string \<Rightarrow> bool" where
  "rx_test r s = rx_null (fold rx_after s r)"

definition emailRegex :: regex where
  "emailRegex =
     Then (OneOrMore (NoneOf [Whitespace, Unit at_sign]))
       (Then (Lit at_sign)
          (Then (OneOrMore (NoneOf [Whitespace, Unit at_sign]))
             (Then (Lit full_stop)
                (OneOrMore (NoneOf [Whitespace, Unit at_sign])))))"

text \<open>The strings an expression matches, as a set; used to reason about \<^const>\<open>rx_test\<close>.\<close>

definition conc :: "js_string set \<Rightarrow> js_string set \<Rightarrow> js_string set" where
  "conc A B = {u @ v | u v. u \<in> A \<and> v \<in> B}"

inductive_set star :: "js_string set \<Rightarrow> js_string set" for A where
  star_nil: "[] \<in> star A"
| star_app: "u \<in> A \<Longrightarrow> v \<in> star A \<Longrightarrow> u @ v \<in> star A"

fun lang :: "regex \<Rightarrow> js_string set" where
  "lang Never = {}"
| "lang Empty = {[]}"
| "lang (Lit u) = {[u]}"
| "lang (NoneOf items) = {[c] | c. \<not> list_ex (\<lambda>i. item_has i c) items}"
| "lang (Then r q) = conc (lang r) (lang q)"
| "lang (Or r q) = lang r \<union> lang q"
| "lang (Many r) = star (lang r)"

definition plain :: "code_unit \<Rightarrow> bool" where
  "plain c = (\<not> js_whitespace c \<and> c \<noteq> at_sign)"

text \<open>
  The pattern as the specification words it: no whitespace, exactly one \<^verbatim>\<open>@\<close>, a
  non-empty part before it, and in the part after it some \<^verbatim>\<open>.\<close> with a non-empty
  segment on either side.
\<close>

definition email_local :: "js_string \<Rightarrow> js_string" where
  "email_local e = takeWhile (\<lambda>c. c \<noteq> at_sign) e"

definition email_domain :: "js_string \<Rightarrow> js_string" where
  "email_domain e = tl (dropWhile (\<lambda>c. c \<noteq> at_sign) e)"

definition has_inner_dot :: "js_string \<Rightarrow> bool" where
  "has_inner_dot d = list_ex (\<lambda>i. d ! i = full_stop) [1..<length d - 1]"

definition email_pattern_spec :: "js_string \<Rightarrow> bool" where
  "email_pattern_spec e =
     (list_all (\<lambda>c. \<not> js_whitespace c) e \<and>
      count_list e at_sign = 1 \<and>
      email_local e \<noteq> [] \<and>
      has_inner_dot (email_domain e))"

section \<open>Contact form: fields, error messages, submission\<close>

text \<open>The three controls the script validates.\<close>

datatype field = NameField | EmailField | MessageField

text \<open>
  An element of the page, as far as the form code reads and writes it: which of the
  three controls are among its children, its class tokens, the inline style properties
  set by the script, its text and its child elements. The markup is not part of the
  script, so the page is a parameter: any tree of elements, in which the parent of one
  control may be the parent of another, may lie inside it, or may lie elsewhere.
\<close>

datatype elem = Elem (controls: "field list") (classes: "string list")
  (style: "(string \<times> string) list") (textContent: string) (children: "elem list")

text \<open>
  \<^verbatim>\<open>input.parentElement\<close>: the first element, in document order, that has the
  control among its children.
\<close>

fun parent_of :: "field \<Rightarrow> elem list \<Rightarrow> elem option" where
  "parent_of f [] = None"
| "parent_of f (Elem fs cs st tx kids # es) =
     (if f \<in> set fs then Some (Elem fs cs st tx kids)
      else case parent_of f kids of
             Some p \<Rightarrow> Some p
           | None \<Rightarrow> parent_of f es)"

text \<open>The page after the children of that parent have been replaced.\<close>

fun set_children :: "field \<Rightarrow> elem list \<Rightarrow> elem list \<Rightarrow> elem list" where
  "set_children f new [] = []"
| "set_children f new (Elem fs cs st tx kids # es) =
     (if f \<in> set fs then Elem fs cs st tx new # es
      else case parent_of f kids of
             Some p \<Rightarrow> Elem fs cs st tx (set_children f new kids) # es
           | None \<Rightarrow> Elem fs cs st tx kids # set_children f new es)"

text \<open>
  \<^verbatim>\<open>parent.querySelector('.' + cls)\<close> followed by \<^verbatim>\<open>remove()\<close> on what it found:
  the first element of the class among all the descendants, in document order, is taken
  out with everything below it. The result is the element taken out and what is left;
  \<^const>\<open>None\<close> when no descendant has the class.
\<close>

fun query_detach :: "string \<Rightarrow> elem list \<Rightarrow> (elem \<times> elem list) option" where
  "query_detach cls [] = None"
| "query_detach cls (Elem fs cs st tx kids # es) =
     (if cls \<in> set cs then Some (Elem fs cs st tx kids, es)
      else case query_detach cls kids of
             Some (gone, kids') \<Rightarrow> Some (gone, Elem fs cs st tx kids' # es)
           | None \<Rightarrow>
               (case query_detach cls es of
                  Some (gone, es') \<Rightarrow> Some (gone, Elem fs cs st tx kids # es')
                | None \<Rightarrow> None))"

text \<open>How many descendants carry the class, and which controls lie below.\<close>

fun count_class :: "string \<Rightarrow> elem list \<Rightarrow> nat" where
  "count_class cls [] = 0"
| "count_class cls (Elem fs cs st tx kids # es) =
     (if cls \<in> set cs then 1 else 0) + count_class cls kids + count_class cls es"

fun controls_in :: "elem list \<Rightarrow> field list" where
  "controls_in [] = []"
| "controls_in (Elem fs cs st tx kids # es) = fs @ controls_in kids @ controls_in es"

text \<open>
  An input has its current value, the default value of the markup (what
  \<^verbatim>\<open>form.reset()\<close> restores) and the \<^verbatim>\<open>border-color\<close> written by the script.
\<close>

record input_el =
  val :: js_string
  defaultValue :: js_string
  borderColor :: string

record button_el =
  btn_text :: string
  disabled :: bool

text \<open>
  What a timer does when it fires: the rest of the submit handler after its
  \<^verbatim>\<open>await\<close>, which has captured \<^verbatim>\<open>originalText\<close>, or the removal of a banner.
\<close>

datatype task = ResumeSubmit string | RemoveBanner nat

text \<open>
  \<open>roots\<close> holds the document tree, followed by the subtrees that \<^verbatim>\<open>remove()\<close> has
  detached: a detached element keeps its content and is no longer below any element of
  the document.
\<close>

record form_state =
  nameInput :: input_el
  emailInput :: input_el
  messageInput :: input_el
  roots :: "elem list"
  submitBtn :: "button_el option"
  form_messages :: "(nat \<times> elem) list"
  next_node :: nat
  timers :: "(nat \<times> task) list"

fun get_input :: "field \<Rightarrow> form_state \<Rightarrow> input_el" where
  "get_input NameField s = nameInput s"
| "get_input EmailField s = emailInput s"
| "get_input MessageField s = messageInput s"

fun set_input :: "field \<Rightarrow> input_el \<Rightarrow> form_state \<Rightarrow> form_state" where
  "set_input NameField i s = s\<lparr>nameInput := i\<rparr>"
| "set_input EmailField i s = s\<lparr>emailInput := i\<rparr>"
| "set_input MessageField i s = s\<lparr>messageInput := i\<rparr>"

text \<open>
  \<^verbatim>\<open>clearError\<close>. The three inputs were found in the document when the script was
  loaded, so each has a parent; a state whose tree places a control nowhere stands for
  no page, and its tree is left as it is.
\<close>

definition clearError :: "field \<Rightarrow> form_state \<Rightarrow> form_state" where
  "clearError f s =
     (let s1 = (case parent_of f (roots s) of
                  None \<Rightarrow> s
                | Some parentElement \<Rightarrow>
                    (case query_detach ''error-message'' (children parentElement) of
                       None \<Rightarrow> s
                     | Some (errorDiv, kids) \<Rightarrow>
                         s\<lparr>roots := set_children f kids (roots s) @ [errorDiv]\<rparr>))
      in set_input f ((get_input f s1)\<lparr>borderColor := ''''\<rparr>) s1)"

definition error_div :: "string \<Rightarrow> elem" where
  "error_div message =
     Elem [] [''error-message'']
       [(''color'', ''#d32f2f''), (''fontSize'', ''0.875rem''), (''marginTop'', ''0.25rem'')]
       message []"

definition showError :: "field \<Rightarrow> string \<Rightarrow> form_state \<Rightarrow> form_state" where
  "showError f message s =
     (let s1 = clearError f s;
          errorDiv = error_div message;
          s2 = (case parent_of f (roots s1) of
                  None \<Rightarrow> s1
                | Some parentElement \<Rightarrow>
                    s1\<lparr>roots := set_children f (children parentElement @ [errorDiv]) (roots s1)\<rparr>)
      in set_input f ((get_input f s2)\<lparr>borderColor := ''#d32f2f''\<rparr>) s2)"

definition name_message :: string where
  "name_message = ''Name must be at least 2 characters long''"

definition email_message :: string where
  "email_message = ''Please enter a valid email address''"

definition message_message :: string where
  "message_message = ''Message must be at least 10 characters long''"

definition validateName :: "form_state \<Rightarrow> form_state \<times> bool" where
  "validateName s =
     (let name = js_trim (val (nameInput s))
      in if length name < 2 then (showError NameField name_message s, False)
         else (clearError NameField s, True))"

definition validateEmail :: "form_state \<Rightarrow> form_state \<times> bool" where
  "validateEmail s =
     (let email = js_trim (val (emailInput s))
      in if \<not> rx_test emailRegex email then (showError EmailField email_message s, False)
         else (clearError EmailField s, True))"

definition validateMessage :: "form_state \<Rightarrow> form_state \<times> bool" where
  "validateMessage s =
     (let message = js_trim (val (messageInput s))
      in if length message < 10 then (showError MessageField message_message s, False)
         else (clearError MessageField s, True))"





text \<open>
  The submit handler up to its \<^verbatim>\<open>await\<close>. It returns early when a field fails; it
  is rejected with a TypeError when the form has no submit button; otherwise it sets the
  busy label, disables the button and starts the timer of 1500 ms that resumes it.
  (\<^verbatim>\<open>e.preventDefault()\<close> marks the event and changes nothing kept here.)
\<close>

datatype submit_outcome = Blocked | Rejected | Sending

definition submit_handler :: "form_state \<Rightarrow> form_state \<times> submit_outcome" where
  "submit_handler s =
     (let (s1, isNameValid) = validateName s;
          (s2, isEmailValid) = validateEmail s1;
          (s3, isMessageValid) = validateMessage s2
      in if \<not> isNameValid \<or> \<not> isEmailValid \<or> \<not> isMessageValid then (s3, Blocked)
         else case submitBtn s3 of
                None \<Rightarrow> (s3, Rejected)
              | Some b \<Rightarrow>
                  (let originalText = btn_text b
                   in (s3\<lparr>submitBtn := Some (b\<lparr>btn_text := ''Sending...'', disabled := True\<rparr>),
                          timers := timers s3 @ [(1500, ResumeSubmit originalText)]\<rparr>,
                       Sending)))"




text \<open>A validation outcome shows an error for a field or clears it; a run is a list of them.\<close>

datatype outcome = Failed field string | Passed field

fun apply_outcome :: "outcome \<Rightarrow> form_state \<Rightarrow> form_state" where
  "apply_outcome (Failed f message) s = showError f message s"
| "apply_outcome (Passed f) s = clearError f s"

definition run_outcomes :: "outcome list \<Rightarrow> form_state \<Rightarrow> form_state" where
  "run_outcomes os s = fold apply_outcome os s"

text \<open>
  The children of a field's parent, the error messages among them, and the number of
  error messages anywhere below the parent.
\<close>

definition field_parent :: "field \<Rightarrow> form_state \<Rightarrow> elem list" where
  "field_parent f s = (case parent_of f (roots s) of Some p \<Rightarrow> children p | None \<Rightarrow> [])"

definition error_children :: "field \<Rightarrow> form_state \<Rightarrow> elem list" where
  "error_children f s = filter (\<lambda>e. ''error-message'' \<in> set (classes e)) (field_parent f s)"

definition error_count :: "field \<Rightarrow> form_state \<Rightarrow> nat" where
  "error_count f s = count_class ''error-message'' (field_parent f s)"

text \<open>What \<^const>\<open>clearError\<close> leaves of a parent's content.\<close>

definition cleared :: "elem list \<Rightarrow> elem list" where
  "cleared es =
     (case query_detach ''error-message'' es of Some (gone, kids) \<Rightarrow> kids | None \<Rightarrow> es)"

text \<open>What \<^const>\<open>clearError\<close> detaches from it.\<close>

definition detached_by :: "elem list \<Rightarrow> elem list" where
  "detached_by es =
     (case query_detach ''error-message'' es of Some (gone, kids) \<Rightarrow> [gone] | None \<Rightarrow> [])"

text \<open>
  Two fields are unnested on a page when both have a parent and either they have the
  same parent or neither parent lies inside the other. A page has its fields unnested
  when this holds for every two of them.
\<close>

definition unnested :: "field \<Rightarrow> field \<Rightarrow> elem list \<Rightarrow> bool" where
  "unnested f g page =
     (case (parent_of f page, parent_of g page) of
        (Some pf, Some pg) \<Rightarrow>
          (g \<in> set (controls pf) \<and> f \<in> set (controls pg)) \<or>
          (g \<notin> set (controls pf) \<and> g \<notin> set (controls_in (children pf)) \<and>
           f \<notin> set (controls pg) \<and> f \<notin> set (controls_in (children pg)))
      | _ \<Rightarrow> False)"

definition all_fields :: "field list" where
  "all_fields = [NameField, EmailField, MessageField]"

definition fields_unnested :: "elem list \<Rightarrow> bool" where
  "fields_unnested page =
     list_all (\<lambda>f. list_all (\<lambda>g. unnested f g page) all_fields) all_fields"

text \<open>
  Control \<open>n\<close> lies outside the parents of control \<open>g\<close> when no element that has \<open>g\<close>
  among its children has \<open>n\<close> among its children or anywhere below it.
\<close>

fun outside :: "field \<Rightarrow> field \<Rightarrow> elem list \<Rightarrow> bool" where
  "outside n g [] = True"
| "outside n g (Elem fs cs st tx kids # es) =
     ((if g \<in> set fs then n \<notin> set fs \<and> n \<notin> set (controls_in kids) else True) \<and>
      outside n g kids \<and> outside n g es)"

text \<open>
  Pages to evaluate the code on. In the grouped page each input is in a group of its
  own inside the form; in the shared page the three inputs are children of the form
  itself; in the nested page the name input is a child of the form and the other two
  are in rows inside the form.
\<close>

definition grouped_page :: "elem list" where
  "grouped_page =
     [Elem [] [''contact-form''] [] []
        [Elem [NameField] [''form-group''] [] [] [],
         Elem [EmailField] [''form-group''] [] [] [],
         Elem [MessageField] [''form-group''] [] [] []]]"

definition shared_page :: "elem list" where
  "shared_page = [Elem [NameField, EmailField, MessageField] [''contact-form''] [] [] []]"

definition nested_page :: "elem list" where
  "nested_page =
     [Elem [NameField] [''contact-form''] [] []
        [Elem [EmailField] [''form-row''] [] [] [],
         Elem [MessageField] [''form-row''] [] [] []]]"

definition blank_input :: "js_string \<Rightarrow> input_el" where
  "blank_input v = \<lparr>val = v, defaultValue = [], borderColor = ''''\<rparr>"

definition form_on :: "elem list \<Rightarrow> js_string \<Rightarrow> js_string \<Rightarrow> js_string \<Rightarrow> form_state" where
  "form_on page n e m =
     \<lparr>nameInput = blank_input n, emailInput = blank_input e, messageInput = blank_input m,
      roots = page,
      submitBtn = Some \<lparr>btn_text = ''Send Message'', disabled = False\<rparr>,
      form_messages = [], next_node = 0, timers = []\<rparr>"

definition contact_form :: "js_string \<Rightarrow> js_string \<Rightarrow> js_string \<Rightarrow> form_state" where
  "contact_form n e m = form_on grouped_page n e m"


section \<open>Loading the script: the top-level statements\<close>

text \<open>
  Both scripts are a sequence of top-level statements that look elements up and register
  event listeners. A lookup that finds nothing gives \<^verbatim>\<open>null\<close>; a statement that calls
  a method on \<^verbatim>\<open>null\<close> throws a TypeError, which nothing catches, so the script stops
  there and the statements after it never run. The page is the set of elements the
  top-level statements look up and use, together with the width test of the load.
  (\<^verbatim>\<open>initCursor\<close> and the set-up of the download button look their elements up
  inside their own callbacks, behind a test.)
\<close>

record page =
  has_hamburger :: bool
  has_navMenu :: bool
  has_scrollToTop :: bool
  has_lightbox :: bool
  has_lightboxClose :: bool
  has_contactForm :: bool
  has_name :: bool
  has_email :: bool
  has_message :: bool
  has_themeToggle :: bool
  has_nav_ul :: bool
  narrow :: bool

text \<open>The listeners and observers the scripts register, one name for each registration.\<close>

datatype listener =
    CursorInit | CursorResize
  | NavScroll | NavLoad
  | HamburgerClick | HamburgerTouch | NavMenuClick | OutsideClick | MenuResize | MenuCloseOnLoad
  | ScrollTopVisibility | ScrollTopClick
  | HighlightScroll | SmoothScroll | RevealObserver
  | GalleryClick | LightboxCloseClick | LightboxBackdropClick | LightboxEscape
  | NameBlur | EmailBlur | MessageBlur | FormSubmit
  | LazyImages | NavKeyboard | DebouncedHighlight
  | ThemeToggleClick | DownloadInit | PageInit

text \<open>
  A statement registers listeners whatever the page holds (\<open>Always\<close>), registers them
  behind an \<^verbatim>\<open>if (element)\<close> test (\<open>Guarded\<close>), or calls a method on the element it
  looked up without a test (\<open>Unguarded\<close>: the listeners when the element is there, a
  TypeError when it is not).
\<close>

datatype stmt =
    Always "listener list"
  | Guarded "page \<Rightarrow> bool" "listener list"
  | Unguarded "page \<Rightarrow> bool" "listener list"

datatype load_result = Loaded "listener list" | Aborted "listener list"

fun run_stmts :: "stmt list \<Rightarrow> page \<Rightarrow> listener list \<Rightarrow> load_result" where
  "run_stmts [] p registered = Loaded registered"
| "run_stmts (Always ls # rest) p registered = run_stmts rest p (registered @ ls)"
| "run_stmts (Guarded present ls # rest) p registered =
     run_stmts rest p (if present p then registered @ ls else registered)"
| "run_stmts (Unguarded present ls # rest) p registered =
     (if present p then run_stmts rest p (registered @ ls) else Aborted registered)"

text \<open>
  \<^verbatim>\<open>js/script.js\<close>, in the order of the file. \<^verbatim>\<open>initCursor\<close> tests the cursor
  element itself when it runs, so its registration is unconditional; the statement
  \<^verbatim>\<open>if (window.innerWidth <= 768) { document.querySelector('nav ul').style.display = ... }\<close>
  dereferences its lookup on a narrow window only.
\<close>

definition script_js :: "stmt list" where
  "script_js =
     [Always [CursorInit],
      Always [NavScroll, NavLoad],
      Always [ScrollTopVisibility],
      Unguarded has_scrollToTop [ScrollTopClick],
      Always [HighlightScroll],
      Always [SmoothScroll],
      Always [RevealObserver],
      Always [GalleryClick],
      Unguarded has_lightboxClose [LightboxCloseClick],
      Unguarded has_lightbox [LightboxBackdropClick],
      Always [LightboxEscape],
      Unguarded has_name [NameBlur],
      Unguarded has_email [EmailBlur],
      Unguarded has_message [MessageBlur],
      Unguarded has_contactForm [FormSubmit],
      Always [LazyImages],
      Unguarded (\<lambda>p. if narrow p then has_nav_ul p else True) [],
      Always [NavKeyboard],
      Always [DebouncedHighlight],
      Guarded has_themeToggle [ThemeToggleClick],
      Always [PageInit]]"

text \<open>
  \<^verbatim>\<open>Mdule-1/js/script.js\<close>: the same statements, with the resize check of the cursor,
  the hamburger menu and the download button added.
\<close>

definition script_module1 :: "stmt list" where
  "script_module1 =
     [Always [CursorInit],
      Always [CursorResize],
      Always [NavScroll, NavLoad],
      Guarded has_hamburger [HamburgerClick, HamburgerTouch],
      Guarded has_navMenu [NavMenuClick],
      Always [OutsideClick],
      Always [MenuResize],
      Always [MenuCloseOnLoad],
      Always [ScrollTopVisibility],
      Unguarded has_scrollToTop [ScrollTopClick],
      Always [HighlightScroll],
      Always [SmoothScroll],
      Always [RevealObserver],
      Always [GalleryClick],
      Unguarded has_lightboxClose [LightboxCloseClick],
      Unguarded has_lightbox [LightboxBackdropClick],
      Always [LightboxEscape],
      Unguarded has_name [NameBlur],
      Unguarded has_email [EmailBlur],
      Unguarded has_message [MessageBlur],
      Unguarded has_contactForm [FormSubmit],
      Always [LazyImages],
      Unguarded (\<lambda>p. if narrow p then has_nav_ul p else True) [],
      Always [NavKeyboard],
      Always [DebouncedHighlight],
      Guarded has_themeToggle [ThemeToggleClick],
      Always [DownloadInit],
      Always [PageInit]]"

definition load_script :: "stmt list \<Rightarrow> page \<Rightarrow> load_result" where
  "load_script script p = run_stmts script p []"

text \<open>A page that holds every element the scripts look up, on a wide window.\<close>

definition full_page :: page where
  "full_page =
     \<lparr>has_hamburger = True, has_navMenu = True,
      has_scrollToTop = True, has_lightbox = True, has_lightboxClose = True,
      has_contactForm = True, has_name = True, has_email = True, has_message = True,
      has_themeToggle = True, has_nav_ul = True,
      narrow = False\<rparr>"

section \<open>Theorems: theme\<close>

lemma setTheme_Returned:
  "setTheme env t s = Returned s' \<Longrightarrow> data_theme s' = Some t \<and> stored_theme s' = Some t"
  by (auto simp: setTheme_def Let_def split: if_splits option.splits)

lemma setTheme_Threw:
  "setTheme env t s = Threw e s' \<Longrightarrow> data_theme s' = Some t \<and> stored_theme s' = stored_theme s"
  by (auto simp: setTheme_def Let_def split: if_splits option.splits)

lemma getTheme_Inr:
  "getTheme env s = Inr t \<Longrightarrow> t = persisted_theme s \<and> \<not> access_denied env"
  by (auto simp: getTheme_def persisted_theme_def split: if_splits)

lemma theme_step_Returned:
  "theme_step env x s = Returned s' \<Longrightarrow>
     data_theme s' = stored_theme s' \<and> stored_theme s' \<noteq> None"
  by (cases x)
     (auto simp: initTheme_def toggleTheme_def Let_def dest: setTheme_Returned split: sum.splits)

lemma theme_step_Threw:
  "theme_step env x s = Threw e s' \<Longrightarrow> stored_theme s' = stored_theme s"
  by (cases x)
     (auto simp: initTheme_def toggleTheme_def Let_def dest: setTheme_Threw split: sum.splits)

lemma toggleTheme_Returned:
  assumes "toggleTheme env s = Returned s'"
  shows "data_theme s' = Some (if persisted_theme s = ''dark'' then ''light'' else ''dark'')"
    and "stored_theme s' = Some (if persisted_theme s = ''dark'' then ''light'' else ''dark'')"
proof -
  from assms obtain t where g: "getTheme env s = Inr t"
    and r: "setTheme env (if t = ''dark'' then ''light'' else ''dark'') s = Returned s'"
    by (auto simp: toggleTheme_def Let_def split: sum.splits)
  from g have t: "t = persisted_theme s" by (simp add: getTheme_Inr)
  from setTheme_Returned [OF r] t
  show "data_theme s' = Some (if persisted_theme s = ''dark'' then ''light'' else ''dark'')"
    and "stored_theme s' = Some (if persisted_theme s = ''dark'' then ''light'' else ''dark'')"
    by simp_all
qed

lemma toggleTheme_refused: "toggleTheme env s = Threw SecurityError s' \<Longrightarrow> s' = s"
  by (auto simp: toggleTheme_def getTheme_def setTheme_def Let_def
      split: if_splits option.splits)

text \<open>
  C6, as stated, fails, in two ways. \<^verbatim>\<open>toggleTheme\<close> reads the current theme from
  storage only, so a document whose attribute says \<^verbatim>\<open>light\<close> while storage says
  \<^verbatim>\<open>dark\<close> (the entry was rewritten by another page of the site since this one was
  initialised) ends two toggles later with the attribute \<^verbatim>\<open>dark\<close>. And
  \<^verbatim>\<open>setTheme\<close> writes the attribute before the entry and catches nothing: with the
  attribute \<^verbatim>\<open>light\<close>, no entry and storage full, each toggle writes the attribute
  \<^verbatim>\<open>dark\<close> and then throws, so two toggles end with the attribute \<^verbatim>\<open>dark\<close>.
\<close>

theorem toggleTheme_twice_counterexample:
  "stored_theme stale_tab_state = Some ''dark'' \<and>
   data_theme stale_tab_state = Some ''light'' \<and>
   toggleTheme storage_ok stale_tab_state =
     Returned \<lparr>data_theme = Some ''light'', stored_theme = Some ''light'', themeIcon = Some Moon\<rparr> \<and>
   toggleTheme storage_ok
     \<lparr>data_theme = Some ''light'', stored_theme = Some ''light'', themeIcon = Some Moon\<rparr> =
     Returned \<lparr>data_theme = Some ''dark'', stored_theme = Some ''dark'', themeIcon = Some Sun\<rparr> \<and>
   stored_theme light_unset_state = None \<and>
   data_theme light_unset_state = Some ''light'' \<and>
   toggleTheme storage_full light_unset_state =
     Threw QuotaExceededError
       \<lparr>data_theme = Some ''dark'', stored_theme = None, themeIcon = Some Moon\<rparr> \<and>
   toggleTheme storage_full
     \<lparr>data_theme = Some ''dark'', stored_theme = None, themeIcon = Some Moon\<rparr> =
     Threw QuotaExceededError
       \<lparr>data_theme = Some ''dark'', stored_theme = None, themeIcon = Some Moon\<rparr>"
  by (simp add: stale_tab_state_def light_unset_state_def storage_ok_def storage_full_def
      toggleTheme_def setTheme_def getTheme_def Let_def)

text \<open>
  C6, amended: in every state whose stored theme is \<^verbatim>\<open>light\<close>, \<^verbatim>\<open>dark\<close> or unset
  (read as \<^verbatim>\<open>light\<close>) and whose document attribute already equals that theme, two
  toggles that both complete (localStorage throws in neither) return the attribute to
  its value before the first toggle and the persisted theme, read with the
  \<^verbatim>\<open>light\<close> default, to its value; a stored entry that was set is identical
  afterwards, and one that was unset now holds \<^verbatim>\<open>light\<close>. Two toggles in which
  localStorage refuses access with a SecurityError change nothing at all.
\<close>

theorem toggleTheme_twice_roundtrip:
  assumes stored: "stored_theme s = None \<or> stored_theme s = Some ''light'' \<or>
                   stored_theme s = Some ''dark''"
    and synced: "data_theme s = Some (persisted_theme s)"
  shows "(toggleTheme env1 s = Returned s1 \<and> toggleTheme env2 s1 = Returned s2 \<longrightarrow>
           data_theme s2 = data_theme s \<and>
           persisted_theme s2 = persisted_theme s \<and>
           stored_theme s2 = (if stored_theme s = None then Some ''light'' else stored_theme s)) \<and>
         (toggleTheme env1 s = Threw SecurityError s1 \<and>
          toggleTheme env2 s1 = Threw SecurityError s2 \<longrightarrow> s2 = s)"
proof (intro conjI impI)
  assume both: "toggleTheme env1 s = Returned s1 \<and> toggleTheme env2 s1 = Returned s2"
  then have first: "toggleTheme env1 s = Returned s1"
    and second: "toggleTheme env2 s1 = Returned s2" by simp_all
  from stored have g: "persisted_theme s = ''light'' \<or> persisted_theme s = ''dark''"
    by (auto simp: persisted_theme_def)
  have s1: "stored_theme s1 = Some (if persisted_theme s = ''dark'' then ''light'' else ''dark'')"
    by (rule toggleTheme_Returned(2) [OF first])
  with g have p1: "persisted_theme s1 = (if persisted_theme s = ''dark'' then ''light'' else ''dark'')"
    by (auto simp: persisted_theme_def)
  have a: "data_theme s2 = Some (if persisted_theme s1 = ''dark'' then ''light'' else ''dark'')"
    and b: "stored_theme s2 = Some (if persisted_theme s1 = ''dark'' then ''light'' else ''dark'')"
    by (rule toggleTheme_Returned(1) [OF second], rule toggleTheme_Returned(2) [OF second])
  from a p1 g have a': "data_theme s2 = Some (persisted_theme s)" by auto
  from b p1 g have b': "stored_theme s2 = Some (persisted_theme s)" by auto
  from b' g have c: "persisted_theme s2 = persisted_theme s"
    by (auto simp: persisted_theme_def)
  from stored have d: "Some (persisted_theme s) =
      (if stored_theme s = None then Some ''light'' else stored_theme s)"
    by (auto simp: persisted_theme_def)
  from a' synced show "data_theme s2 = data_theme s" by simp
  from c show "persisted_theme s2 = persisted_theme s" .
  from b' d show "stored_theme s2 = (if stored_theme s = None then Some ''light'' else stored_theme s)"
    by simp
next
  assume "toggleTheme env1 s = Threw SecurityError s1 \<and>
          toggleTheme env2 s1 = Threw SecurityError s2"
  then show "s2 = s"
    using toggleTheme_refused [of env1 s s1] toggleTheme_refused [of env2 s1 s2] by simp
qed

theorem toggleTheme_twice_roundtrip_witness:
  "toggleTheme storage_ok dark_page_state =
     Returned \<lparr>data_theme = Some ''light'', stored_theme = Some ''light'', themeIcon = Some Moon\<rparr> \<and>
   toggleTheme storage_ok
     \<lparr>data_theme = Some ''light'', stored_theme = Some ''light'', themeIcon = Some Moon\<rparr> =
     Returned dark_page_state \<and>
   data_theme dark_page_state = Some ''dark'' \<and>
   persisted_theme dark_page_state = ''dark'' \<and>
   stored_theme dark_page_state = Some ''dark'' \<and>
   toggleTheme \<lparr>access_denied = True, quota_exceeded = False\<rparr> dark_page_state =
     Threw SecurityError dark_page_state"
proof -
  let ?mid = "\<lparr>data_theme = Some ''light'', stored_theme = Some ''light'', themeIcon = Some Moon\<rparr>"
  let ?no = "\<lparr>access_denied = True, quota_exceeded = False\<rparr>"
  have h1: "stored_theme dark_page_state = None \<or>
            stored_theme dark_page_state = Some ''light'' \<or>
            stored_theme dark_page_state = Some ''dark''"
    by (simp add: dark_page_state_def)
  have h2: "data_theme dark_page_state = Some (persisted_theme dark_page_state)"
    by (simp add: dark_page_state_def persisted_theme_def)
  have h3: "toggleTheme storage_ok dark_page_state = Returned ?mid"
    by (simp add: dark_page_state_def storage_ok_def toggleTheme_def setTheme_def getTheme_def
        Let_def)
  have h4: "toggleTheme storage_ok ?mid = Returned dark_page_state"
    by (simp add: dark_page_state_def storage_ok_def toggleTheme_def setTheme_def getTheme_def
        Let_def)
  have h5: "toggleTheme ?no dark_page_state = Threw SecurityError dark_page_state"
    by (simp add: toggleTheme_def getTheme_def)
  have v: "stored_theme dark_page_state = Some ''dark''"
    by (simp add: dark_page_state_def)
  from toggleTheme_twice_roundtrip [OF h1 h2, of storage_ok ?mid storage_ok dark_page_state]
    h3 h4 v
  have "data_theme dark_page_state = Some ''dark'' \<and>
        persisted_theme dark_page_state = ''dark''"
    by (simp add: dark_page_state_def persisted_theme_def)
  moreover
  from toggleTheme_twice_roundtrip [OF h1 h2, of ?no dark_page_state ?no dark_page_state] h5
  have "dark_page_state = dark_page_state" by blast
  ultimately show ?thesis using h3 h4 h5 v by blast
qed

lemma theme_run_append: "theme_run (xs @ ys) s = theme_run ys (theme_run xs s)"
  by (induction xs arbitrary: s) auto

text \<open>
  C9, as stated, fails. \<^verbatim>\<open>setTheme\<close> writes the attribute and then calls
  \<^verbatim>\<open>localStorage.setItem\<close> with nothing to catch an exception: on a first visit with
  storage full, \<^verbatim>\<open>initTheme\<close> leaves the attribute \<^verbatim>\<open>light\<close> and no stored entry.
\<close>

theorem theme_attribute_counterexample:
  "theme_step storage_full InitTheme first_visit_state =
     Threw QuotaExceededError
       \<lparr>data_theme = Some ''light'', stored_theme = None, themeIcon = Some (Markup [])\<rparr> \<and>
   data_theme (state_of (theme_step storage_full InitTheme first_visit_state)) = Some ''light'' \<and>
   stored_theme (state_of (theme_step storage_full InitTheme first_visit_state)) = None"
  by (simp add: first_visit_state_def storage_full_def initTheme_def setTheme_def getTheme_def
      Let_def)

text \<open>
  C9, amended: after every theme operation (initialise, set, toggle) that completes,
  that is, in which localStorage does not throw, the \<^verbatim>\<open>data-theme\<close> attribute of the
  document and the stored \<^verbatim>\<open>theme\<close> entry are equal and the entry is set; this holds
  at the end of every run of theme operations whose last operation completes, whatever
  happened before. An operation in which localStorage throws leaves the stored entry as
  it was.
\<close>

theorem theme_attribute_mirrors_storage:
  "(theme_step env x (theme_run ops s) = Returned s' \<longrightarrow>
      data_theme s' = stored_theme s' \<and> stored_theme s' \<noteq> None \<and>
      theme_run (ops @ [(env, x)]) s = s') \<and>
   (theme_step env x (theme_run ops s) = Threw e s' \<longrightarrow>
      stored_theme s' = stored_theme (theme_run ops s) \<and>
      theme_run (ops @ [(env, x)]) s = s')"
  by (auto simp: theme_run_append dest: theme_step_Returned theme_step_Threw)

theorem theme_attribute_mirrors_storage_witness:
  "theme_step storage_ok ToggleTheme
     (theme_run [(storage_full, InitTheme)] first_visit_state) =
     Returned \<lparr>data_theme = Some ''dark'', stored_theme = Some ''dark'', themeIcon = Some Sun\<rparr> \<and>
   theme_run [(storage_full, InitTheme), (storage_ok, ToggleTheme)] first_visit_state =
     \<lparr>data_theme = Some ''dark'', stored_theme = Some ''dark'', themeIcon = Some Sun\<rparr> \<and>
   theme_step storage_full ToggleTheme (theme_run [] dark_page_state) =
     Threw QuotaExceededError
       \<lparr>data_theme = Some ''light'', stored_theme = Some ''dark'', themeIcon = Some Sun\<rparr> \<and>
   stored_theme (theme_run [(storage_full, ToggleTheme)] dark_page_state) = Some ''dark''"
proof -
  let ?d = "\<lparr>data_theme = Some ''dark'', stored_theme = Some ''dark'', themeIcon = Some Sun\<rparr>"
  let ?l = "\<lparr>data_theme = Some ''light'', stored_theme = Some ''dark'', themeIcon = Some Sun\<rparr>"
  have r: "theme_step storage_ok ToggleTheme
             (theme_run [(storage_full, InitTheme)] first_visit_state) = Returned ?d"
    by (simp add: first_visit_state_def storage_full_def storage_ok_def initTheme_def
        toggleTheme_def setTheme_def getTheme_def Let_def)
  have t: "theme_step storage_full ToggleTheme (theme_run [] dark_page_state) =
             Threw QuotaExceededError ?l"
    by (simp add: dark_page_state_def storage_full_def toggleTheme_def setTheme_def
        getTheme_def Let_def)
  from theme_attribute_mirrors_storage
      [where env = storage_ok and x = ToggleTheme and ops = "[(storage_full, InitTheme)]"
        and s = first_visit_state and s' = ?d] r
  have a: "theme_run ([(storage_full, InitTheme)] @ [(storage_ok, ToggleTheme)])
             first_visit_state = ?d"
    by blast
  from theme_attribute_mirrors_storage
      [where env = storage_full and x = ToggleTheme and ops = "[]" and s = dark_page_state
        and e = QuotaExceededError and s' = ?l] t
  have b: "theme_run ([] @ [(storage_full, ToggleTheme)]) dark_page_state = ?l"
    by blast
  from a have a': "theme_run [(storage_full, InitTheme), (storage_ok, ToggleTheme)]
                     first_visit_state = ?d"
    by simp
  from b have b': "stored_theme (theme_run [(storage_full, ToggleTheme)] dark_page_state) =
                     Some ''dark''"
    by simp
  from r a' t b' show ?thesis by blast
qed

section \<open>Theorems: hamburger menu\<close>

lemma cl_contains_add: "cl_contains (cl_add t cl) t"
  by (simp add: cl_contains_def cl_add_def)

lemma cl_contains_remove: "\<not> cl_contains (cl_remove t cl) t"
  by (simp add: cl_contains_def cl_remove_def)

lemma toggleMobileMenu_closes:
  assumes "hamburger s = Some hb" "navMenu s = Some nm" "cl_contains nm ''active''"
  shows "menu_view (toggleMobileMenu s) = (False, False, Some ''false'', '''')"
    and "hamburger (toggleMobileMenu s) \<noteq> None" and "navMenu (toggleMobileMenu s) \<noteq> None"
  using assms
  by (simp_all add: toggleMobileMenu_def menu_view_def menu_open_def hamburger_active_def
      hamburger_aria_def cl_contains_remove)

lemma toggleMobileMenu_opens:
  assumes "hamburger s = Some hb" "navMenu s = Some nm" "\<not> cl_contains nm ''active''"
  shows "menu_view (toggleMobileMenu s) = (True, True, Some ''true'', ''hidden'')"
    and "hamburger (toggleMobileMenu s) \<noteq> None" and "navMenu (toggleMobileMenu s) \<noteq> None"
  using assms
  by (simp_all add: toggleMobileMenu_def menu_view_def menu_open_def hamburger_active_def
      hamburger_aria_def cl_contains_add)

lemma toggleMobileMenu_flips:
  assumes "hamburger s \<noteq> None" "navMenu s \<noteq> None"
  shows "menu_view (toggleMobileMenu s) =
           (if menu_open s then (False, False, Some ''false'', '''')
            else (True, True, Some ''true'', ''hidden''))"
    and "hamburger (toggleMobileMenu s) \<noteq> None" and "navMenu (toggleMobileMenu s) \<noteq> None"
    and "menu_open (toggleMobileMenu s) = (\<not> menu_open s)"
proof -
  from assms obtain hb nm where e: "hamburger s = Some hb" "navMenu s = Some nm"
    by auto
  show v: "menu_view (toggleMobileMenu s) =
           (if menu_open s then (False, False, Some ''false'', '''')
            else (True, True, Some ''true'', ''hidden''))"
    using toggleMobileMenu_closes(1) [OF e] toggleMobileMenu_opens(1) [OF e] e
    by (simp add: menu_open_def)
  from v show "menu_open (toggleMobileMenu s) = (\<not> menu_open s)"
    by (simp add: menu_view_def split: if_splits)
  show "hamburger (toggleMobileMenu s) \<noteq> None"
    using toggleMobileMenu_closes(2) [OF e] toggleMobileMenu_opens(2) [OF e] by blast
  show "navMenu (toggleMobileMenu s) \<noteq> None"
    using toggleMobileMenu_closes(3) [OF e] toggleMobileMenu_opens(3) [OF e] by blast
qed

text \<open>
  C10, as stated, fails. The body's overflow style is also written by the lightbox
  (\<^verbatim>\<open>hidden\<close> while it is open). With the menu closed and the lightbox open, the
  first toggle opens the menu and the second closes it and writes the empty string:
  the overflow style was \<^verbatim>\<open>hidden\<close> before and is empty afterwards.
\<close>

theorem toggleMobileMenu_twice_counterexample:
  "hamburger lightbox_open_menu_closed \<noteq> None \<and>
   navMenu lightbox_open_menu_closed \<noteq> None \<and>
   body_overflow lightbox_open_menu_closed = ''hidden'' \<and>
   body_overflow (toggleMobileMenu (toggleMobileMenu lightbox_open_menu_closed)) = '''' \<and>
   menu_view (toggleMobileMenu (toggleMobileMenu lightbox_open_menu_closed))
     \<noteq> menu_view lightbox_open_menu_closed"
  by (simp add: lightbox_open_menu_closed_def toggleMobileMenu_def menu_view_def
      cl_contains_def cl_add_def cl_remove_def)

text \<open>
  C10, amended: in every state in which the hamburger control and the nav menu both
  exist and the four values agree (menu closed, hamburger not active, aria-expanded
  \<^verbatim>\<open>false\<close>, overflow empty; or menu open, hamburger active, aria-expanded
  \<^verbatim>\<open>true\<close>, overflow \<^verbatim>\<open>hidden\<close>), two toggles return the menu's open class, the
  hamburger's active class, its aria-expanded attribute and the body overflow style to
  their values before the first toggle.
\<close>

theorem toggleMobileMenu_twice_roundtrip:
  assumes ex: "hamburger s \<noteq> None" "navMenu s \<noteq> None"
    and cons: "menu_consistent s"
  shows "menu_view (toggleMobileMenu (toggleMobileMenu s)) = menu_view s"
proof -
  let ?t = "toggleMobileMenu s"
  have t: "hamburger ?t \<noteq> None" "navMenu ?t \<noteq> None"
    and o: "menu_open ?t = (\<not> menu_open s)"
    using toggleMobileMenu_flips [OF ex] by simp_all
  have "menu_view (toggleMobileMenu ?t) =
          (if menu_open ?t then (False, False, Some ''false'', '''')
           else (True, True, Some ''true'', ''hidden''))"
    by (rule toggleMobileMenu_flips(1) [OF t])
  with o have v: "menu_view (toggleMobileMenu ?t) =
          (if menu_open s then (True, True, Some ''true'', ''hidden'')
           else (False, False, Some ''false'', ''''))"
    by simp
  from cons have "menu_view s =
          (if menu_open s then (True, True, Some ''true'', ''hidden'')
           else (False, False, Some ''false'', ''''))"
    by (auto simp: menu_consistent_def menu_view_def)
  with v show ?thesis by simp
qed

theorem toggleMobileMenu_twice_roundtrip_witness:
  "menu_view (toggleMobileMenu (toggleMobileMenu open_menu_state)) =
     (True, True, Some ''true'', ''hidden'')"
proof -
  have h1: "hamburger open_menu_state \<noteq> None" and h2: "navMenu open_menu_state \<noteq> None"
    by (simp_all add: open_menu_state_def)
  have h3: "menu_consistent open_menu_state"
    by (simp add: open_menu_state_def menu_consistent_def menu_view_def menu_open_def
        hamburger_active_def hamburger_aria_def cl_contains_def)
  have v: "menu_view open_menu_state = (True, True, Some ''true'', ''hidden'')"
    by (simp add: open_menu_state_def menu_view_def menu_open_def
        hamburger_active_def hamburger_aria_def cl_contains_def)
  show ?thesis
    using toggleMobileMenu_twice_roundtrip [OF h1 h2 h3] v by simp
qed

section \<open>Theorems: active-section highlighting\<close>

lemma mark_link_href: "href (mark_link sid l) = href l"
  by (simp add: mark_link_def Let_def)

lemma mark_link_marked: "marked (mark_link sid l) = (href l = ''#'' @ sid)"
  by (simp add: mark_link_def marked_def Let_def)

lemma mark_link_twice: "mark_link a (mark_link b l) = mark_link a l"
  by (simp add: mark_link_def Let_def)

text \<open>The test of the code is the closed span of the specification without its lower end.\<close>

lemma span_hit_closed:
  "span_hit y s \<longleftrightarrow> in_closed_span y s \<and> y \<noteq> of_int (offsetTop s - 100)"
  by (auto simp: span_hit_def in_closed_span_def Let_def)

lemma highlightActiveSection_snoc:
  "highlightActiveSection y (secs @ [x]) links =
     highlight_step y x (highlightActiveSection y secs links)"
  by (simp add: highlightActiveSection_def)

text \<open>
  What the two nested loops compute: the links are rewritten for the last section, in
  document order, whose test holds, and are left as they were when no test holds.
\<close>

lemma highlightActiveSection_last:
  "highlightActiveSection y secs links =
     (if filter (span_hit y) secs = [] then links
      else map (mark_link (sec_id (last (filter (span_hit y) secs)))) links)"
proof (induction secs rule: rev_induct)
  case Nil
  show ?case by (simp add: highlightActiveSection_def)
next
  case (snoc x secs)
  show ?case
  proof (cases "span_hit y x")
    case True
    then show ?thesis
      by (simp add: highlightActiveSection_snoc snoc.IH highlight_step_def mark_link_twice
          comp_def)
  next
    case False
    then show ?thesis
      by (simp add: highlightActiveSection_snoc snoc.IH highlight_step_def)
  qed
qed

text \<open>
  C1, as stated, fails, in two ways. The test is \<^verbatim>\<open>scrollY > sectionTop\<close>, so the
  lower end of the span is excluded: at offset 500 the only section, whose span starts
  at 500, is not highlighted. And the links are rewritten only inside a successful test:
  at offset 0, in no span at all, the link highlighted by an earlier run at offset 700
  is still marked.
\<close>

theorem highlightActiveSection_counterexample:
  "in_closed_span 500 about_section \<and>
   \<not> marked (hd (highlightActiveSection 500 [about_section] [about_link])) \<and>
   \<not> in_closed_span 0 about_section \<and>
   marked (hd (highlightActiveSection 0 [about_section]
                 (highlightActiveSection 700 [about_section] [about_link])))"
  by (simp add: in_closed_span_def highlightActiveSection_def highlight_step_def span_hit_def
      mark_link_def marked_def about_section_def about_link_def Let_def)

text \<open>
  C1, amended: for every scroll offset Y that lies in the span
  \<^verbatim>\<open>(offsetTop-100, offsetTop-100+height]\<close> (lower end excluded) of at least one
  section, after the routine runs a nav link is marked exactly when its href names the
  last such section in document order, which is the unique one when exactly one span
  contains Y, and the hrefs are as before. When no section's span contains Y the routine
  leaves every link exactly as it was: no link becomes marked, and a link that was
  marked stays marked.
\<close>

theorem highlightActiveSection_marks_containing_section:
  "(filter (span_hit y) sections \<noteq> [] \<longrightarrow>
      map marked (highlightActiveSection y sections links) =
        map (\<lambda>l. href l = ''#'' @ sec_id (last (filter (span_hit y) sections))) links \<and>
      map href (highlightActiveSection y sections links) = map href links) \<and>
   (filter (span_hit y) sections = [] \<longrightarrow>
      highlightActiveSection y sections links = links)"
  by (simp add: highlightActiveSection_last mark_link_marked mark_link_href comp_def)

theorem highlightActiveSection_marks_containing_section_witness:
  "map marked (highlightActiveSection 1000 [about_section, gallery_section]
                 [about_link, gallery_link]) = [False, True] \<and>
   map marked (highlightActiveSection (1801 / 2) [about_section, gallery_section]
                 [gallery_link, about_link]) = [True, False] \<and>
   highlightActiveSection 0 [about_section, gallery_section] [about_link, gallery_link] =
     [about_link, gallery_link] \<and>
   highlightActiveSection 500 [about_section, gallery_section]
     [about_link\<lparr>background := ''var(--teal)''\<rparr>, gallery_link] =
     [about_link\<lparr>background := ''var(--teal)''\<rparr>, gallery_link]"
proof -
  have h1: "filter (span_hit 1000) [about_section, gallery_section] \<noteq> []"
    by (simp add: span_hit_def about_section_def gallery_section_def)
  have h2: "filter (span_hit (1801 / 2)) [about_section, gallery_section] \<noteq> []"
    by (simp add: span_hit_def about_section_def gallery_section_def)
  have h3: "filter (span_hit 0) [about_section, gallery_section] = []"
    by (simp add: span_hit_def about_section_def gallery_section_def)
  have h4: "filter (span_hit 500) [about_section, gallery_section] = []"
    by (simp add: span_hit_def about_section_def gallery_section_def)
  have a: "map marked (highlightActiveSection 1000 [about_section, gallery_section]
                 [about_link, gallery_link]) = [False, True]"
    using highlightActiveSection_marks_containing_section
      [of 1000 "[about_section, gallery_section]" "[about_link, gallery_link]"] h1
    by (simp add: span_hit_def about_section_def gallery_section_def about_link_def
        gallery_link_def)
  have b: "map marked (highlightActiveSection (1801 / 2) [about_section, gallery_section]
                 [gallery_link, about_link]) = [True, False]"
    using highlightActiveSection_marks_containing_section
      [of "1801 / 2" "[about_section, gallery_section]" "[gallery_link, about_link]"] h2
    by (simp add: span_hit_def about_section_def gallery_section_def about_link_def
        gallery_link_def)
  have c: "highlightActiveSection 0 [about_section, gallery_section]
             [about_link, gallery_link] = [about_link, gallery_link]"
    using highlightActiveSection_marks_containing_section
      [of 0 "[about_section, gallery_section]" "[about_link, gallery_link]"] h3
    by blast
  have d: "highlightActiveSection 500 [about_section, gallery_section]
             [about_link\<lparr>background := ''var(--teal)''\<rparr>, gallery_link] =
             [about_link\<lparr>background := ''var(--teal)''\<rparr>, gallery_link]"
    using highlightActiveSection_marks_containing_section
      [of 500 "[about_section, gallery_section]"
        "[about_link\<lparr>background := ''var(--teal)''\<rparr>, gallery_link]"] h4
    by blast
  from a b c d show ?thesis by blast
qed

section \<open>Theorems: lazy image loading\<close>

lemma on_entry_keeps_plain_image:
  assumes "data_src (images s ! i) = None"
  shows "images (on_entry e s) ! i = images s ! i"
proof (cases "target e = i")
  case True
  with assms show ?thesis
    by (simp add: on_entry_def Let_def)
next
  case False
  then show ?thesis
    by (simp add: on_entry_def Let_def split: option.splits)
qed

lemma on_entry_observed: "set (observed (on_entry e s)) \<subseteq> set (observed s)"
  by (auto simp: on_entry_def Let_def split: option.splits)

lemma callback_keeps_plain_image:
  "data_src (images s ! i) = None \<Longrightarrow>
     images (imageObserver_callback es s) ! i = images s ! i"
  unfolding imageObserver_callback_def
proof (induction es arbitrary: s)
  case Nil
  show ?case by simp
next
  case (Cons e es)
  have same: "images (on_entry e s) ! i = images s ! i"
    by (rule on_entry_keeps_plain_image [OF Cons.prems])
  with Cons.prems have "data_src (images (on_entry e s) ! i) = None"
    by simp
  then have "images (fold on_entry es (on_entry e s)) ! i = images (on_entry e s) ! i"
    by (rule Cons.IH)
  with same show ?case by simp
qed

lemma callback_observed: "set (observed (imageObserver_callback es s)) \<subseteq> set (observed s)"
  unfolding imageObserver_callback_def
proof (induction es arbitrary: s)
  case Nil
  show ?case by simp
next
  case (Cons e es)
  have "set (observed (fold on_entry es (on_entry e s))) \<subseteq> set (observed (on_entry e s))"
    by (rule Cons.IH)
  with on_entry_observed [of e s] show ?case by auto
qed

lemma deliver_keeps_plain_image:
  "data_src (images s ! i) = None \<Longrightarrow> images (deliver bs s) ! i = images s ! i"
  unfolding deliver_def
proof (induction bs arbitrary: s)
  case Nil
  show ?case by simp
next
  case (Cons b bs)
  have same: "images (imageObserver_callback b s) ! i = images s ! i"
    by (rule callback_keeps_plain_image [OF Cons.prems])
  with Cons.prems have "data_src (images (imageObserver_callback b s) ! i) = None"
    by simp
  then have "images (fold imageObserver_callback bs (imageObserver_callback b s)) ! i =
             images (imageObserver_callback b s) ! i"
    by (rule Cons.IH)
  with same show ?case by simp
qed

lemma deliver_observed: "set (observed (deliver bs s)) \<subseteq> set (observed s)"
  unfolding deliver_def
proof (induction bs arbitrary: s)
  case Nil
  show ?case by simp
next
  case (Cons b bs)
  have "set (observed (fold imageObserver_callback bs (imageObserver_callback b s)))
          \<subseteq> set (observed (imageObserver_callback b s))"
    by (rule Cons.IH)
  with callback_observed [of b s] show ?case by auto
qed

text \<open>
  C7: an image without a \<^verbatim>\<open>data-src\<close> attribute is not registered with the
  lazy-load observer, stays unregistered, and is left exactly as it was (source and
  every other field) by any sequence of deliveries, also by deliveries that contain
  intersecting entries for that very image, and whether or not the observer watches it.
\<close>

theorem lazy_observer_leaves_plain_image:
  assumes "i < length imgs" and "data_src (imgs ! i) = None"
  shows "i \<notin> set (observed (observe_lazy_images imgs)) \<and>
         i \<notin> set (observed (deliver batches (observe_lazy_images imgs))) \<and>
         images (deliver batches (observe_lazy_images imgs)) ! i = imgs ! i \<and>
         images (deliver batches \<lparr>images = imgs, observed = obs\<rparr>) ! i = imgs ! i"
proof -
  have reg: "i \<notin> set (observed (observe_lazy_images imgs))"
    using assms by (simp add: observe_lazy_images_def)
  have later: "i \<notin> set (observed (deliver batches (observe_lazy_images imgs)))"
    using reg deliver_observed [of batches "observe_lazy_images imgs"] by auto
  have "data_src (images (observe_lazy_images imgs) ! i) = None"
    using assms by (simp add: observe_lazy_images_def)
  then have a: "images (deliver batches (observe_lazy_images imgs)) ! i =
                images (observe_lazy_images imgs) ! i"
    by (rule deliver_keeps_plain_image)
  have "data_src (images \<lparr>images = imgs, observed = obs\<rparr> ! i) = None"
    using assms by simp
  then have b: "images (deliver batches \<lparr>images = imgs, observed = obs\<rparr>) ! i =
                images \<lparr>images = imgs, observed = obs\<rparr> ! i"
    by (rule deliver_keeps_plain_image)
  from reg later a b show ?thesis
    by (simp add: observe_lazy_images_def)
qed

theorem lazy_observer_leaves_plain_image_witness:
  "images (deliver [[\<lparr>isIntersecting = True, target = 0\<rparr>,
                      \<lparr>isIntersecting = True, target = 1\<rparr>]]
             (observe_lazy_images sample_images)) ! 0 =
     \<lparr>src = Some ''logo.png'', data_src = None, alt = ''logo''\<rparr> \<and>
   observed (observe_lazy_images sample_images) = [1] \<and>
   images (deliver [[\<lparr>isIntersecting = True, target = 0\<rparr>,
                      \<lparr>isIntersecting = True, target = 1\<rparr>]]
             (observe_lazy_images sample_images)) ! 1 =
     \<lparr>src = Some ''tree.jpg'', data_src = None, alt = ''tree''\<rparr>"
proof -
  have h1: "0 < length sample_images" by (simp add: sample_images_def)
  have h2: "data_src (sample_images ! 0) = None" by (simp add: sample_images_def)
  have plain: "sample_images ! 0 = \<lparr>src = Some ''logo.png'', data_src = None, alt = ''logo''\<rparr>"
    by (simp add: sample_images_def)
  have reg: "observed (observe_lazy_images sample_images) = [1]"
    by (simp add: observe_lazy_images_def sample_images_def upt_rec)
  have other: "images (deliver [[\<lparr>isIntersecting = True, target = 0\<rparr>,
                      \<lparr>isIntersecting = True, target = 1\<rparr>]]
             (observe_lazy_images sample_images)) ! 1 =
     \<lparr>src = Some ''tree.jpg'', data_src = None, alt = ''tree''\<rparr>"
    by (simp add: deliver_def imageObserver_callback_def on_entry_def observe_lazy_images_def
        sample_images_def Let_def)
  show ?thesis
    using lazy_observer_leaves_plain_image [OF h1 h2,
        of "[[\<lparr>isIntersecting = True, target = 0\<rparr>, \<lparr>isIntersecting = True, target = 1\<rparr>]]"]
      plain reg other
    by simp
qed

section \<open>Theorems: the regular expression of validateEmail\<close>

text \<open>The derivative test decides membership in the language of the expression.\<close>

lemma rx_null_lang: "rx_null r \<longleftrightarrow> [] \<in> lang r"
  by (induction r) (auto simp: conc_def intro: star_nil)

lemma conc_cons:
  "c # w \<in> conc A B \<longleftrightarrow>
     (\<exists>u v. w = u @ v \<and> c # u \<in> A \<and> v \<in> B) \<or> ([] \<in> A \<and> c # w \<in> B)"
  by (auto simp: conc_def Cons_eq_append_conv)

lemma star_cons_split:
  assumes "x \<in> star A" "x = c # w"
  shows "\<exists>u v. w = u @ v \<and> c # u \<in> A \<and> v \<in> star A"
  using assms
proof (induction arbitrary: rule: star.induct)
  case star_nil
  then show ?case by simp
next
  case (star_app u v)
  show ?case
  proof (cases u)
    case Nil
    with star_app show ?thesis by simp
  next
    case (Cons a u')
    with star_app.prems have "a = c" "w = u' @ v" by simp_all
    with Cons star_app.hyps show ?thesis by blast
  qed
qed

lemma star_cons:
  "c # w \<in> star A \<longleftrightarrow> (\<exists>u v. w = u @ v \<and> c # u \<in> A \<and> v \<in> star A)"
proof
  assume "c # w \<in> star A"
  then show "\<exists>u v. w = u @ v \<and> c # u \<in> A \<and> v \<in> star A"
    using star_cons_split by blast
next
  assume "\<exists>u v. w = u @ v \<and> c # u \<in> A \<and> v \<in> star A"
  then obtain u v where "w = u @ v" "c # u \<in> A" "v \<in> star A" by blast
  then show "c # w \<in> star A"
    using star_app [of "c # u" A v] by simp
qed

lemma rx_after_lang: "w \<in> lang (rx_after c r) \<longleftrightarrow> c # w \<in> lang r"
proof (induction r arbitrary: w)
  case (Then r q)
  then show ?case
    by (auto simp: conc_cons rx_null_lang) (auto simp: conc_def)
next
  case (Many r)
  then show ?case
    by (auto simp: star_cons conc_def)
qed auto

lemma rx_test_lang: "rx_test r s \<longleftrightarrow> s \<in> lang r"
  unfolding rx_test_def
  by (induction s arbitrary: r) (simp_all add: rx_null_lang rx_after_lang)

lemma star_units: "star {[c] | c. P c} = {w. list_all P w}"
proof (rule set_eqI, rule iffI)
  fix w assume "w \<in> star {[c] | c. P c}"
  then show "w \<in> {w. list_all P w}"
    by (induction rule: star.induct) auto
next
  fix w assume "w \<in> {w. list_all P w}"
  then have "list_all P w" by simp
  then show "w \<in> star {[c] | c. P c}"
  proof (induction w)
    case Nil
    show ?case by (rule star_nil)
  next
    case (Cons c w)
    then have "[c] \<in> {[c] | c. P c}" "w \<in> star {[c] | c. P c}" by simp_all
    then have "[c] @ w \<in> star {[c] | c. P c}" by (rule star_app)
    then show ?case by simp
  qed
qed

lemma conc_iff: "w \<in> conc A B \<longleftrightarrow> (\<exists>u v. w = u @ v \<and> u \<in> A \<and> v \<in> B)"
  by (auto simp: conc_def)

lemma concI: "u \<in> A \<Longrightarrow> v \<in> B \<Longrightarrow> u @ v \<in> conc A B"
  unfolding conc_iff by blast

lemma lang_plain_run:
  "lang (OneOrMore (NoneOf [Whitespace, Unit at_sign])) = {w. w \<noteq> [] \<and> list_all plain w}"
proof -
  have atoms: "lang (NoneOf [Whitespace, Unit at_sign]) = {[c] | c. plain c}"
    by (auto simp: plain_def)
  have "conc {[c] | c. plain c} {w. list_all plain w} = {w. w \<noteq> [] \<and> list_all plain w}"
    (is "?L = ?R")
  proof (rule set_eqI, rule iffI)
    fix w
    assume "w \<in> ?L"
    then obtain u v where "w = u @ v" "u \<in> {[c] | c. plain c}" "list_all plain v"
      unfolding conc_iff by blast
    then show "w \<in> ?R" by auto
  next
    fix w
    assume "w \<in> ?R"
    then obtain c v where w: "w = c # v" and p: "plain c" "list_all plain v"
      by (cases w) auto
    from p have "[c] @ v \<in> ?L"
      by (intro concI) auto
    with w show "w \<in> ?L" by simp
  qed
  then show ?thesis
    unfolding OneOrMore_def lang.simps(5) lang.simps(7) atoms star_units .
qed

lemma lang_emailRegex:
  "s \<in> lang emailRegex \<longleftrightarrow>
     (\<exists>l a b. s = l @ at_sign # a @ full_stop # b \<and> l \<noteq> [] \<and> a \<noteq> [] \<and> b \<noteq> [] \<and>
        list_all plain l \<and> list_all plain a \<and> list_all plain b)"
  (is "?lhs \<longleftrightarrow> ?rhs")
proof -
  let ?P = "{w. w \<noteq> [] \<and> list_all plain w}"
  have L: "lang emailRegex = conc ?P (conc {[at_sign]} (conc ?P (conc {[full_stop]} ?P)))"
    unfolding emailRegex_def lang.simps(5) lang_plain_run lang.simps(3) ..
  show ?thesis
  proof
    assume ?lhs
    then obtain l r1 where 1: "s = l @ r1" "l \<in> ?P"
        and "r1 \<in> conc {[at_sign]} (conc ?P (conc {[full_stop]} ?P))"
      unfolding L conc_iff [of s] by blast
    then obtain r2 where 2: "r1 = [at_sign] @ r2" and "r2 \<in> conc ?P (conc {[full_stop]} ?P)"
      unfolding conc_iff [of r1] by blast
    then obtain a r3 where 3: "r2 = a @ r3" "a \<in> ?P" and "r3 \<in> conc {[full_stop]} ?P"
      unfolding conc_iff [of r2] by blast
    then obtain b where 4: "r3 = [full_stop] @ b" "b \<in> ?P"
      unfolding conc_iff [of r3] by blast
    from 1 2 3 4 have "s = l @ at_sign # a @ full_stop # b" by simp
    with 1 3 4 show ?rhs by blast
  next
    assume ?rhs
    then obtain l a b where s: "s = l @ at_sign # a @ full_stop # b"
      and p: "l \<in> ?P" "a \<in> ?P" "b \<in> ?P" by auto
    have A: "[full_stop] @ b \<in> conc {[full_stop]} ?P"
      by (rule concI) (use p(3) in simp_all)
    have B: "a @ [full_stop] @ b \<in> conc ?P (conc {[full_stop]} ?P)"
      by (rule concI [OF p(2) A])
    have C: "[at_sign] @ a @ [full_stop] @ b
                 \<in> conc {[at_sign]} (conc ?P (conc {[full_stop]} ?P))"
      by (rule concI [OF _ B]) simp
    have "l @ [at_sign] @ a @ [full_stop] @ b \<in> lang emailRegex"
      unfolding L by (rule concI [OF p(1) C])
    with s show ?lhs by simp
  qed
qed

lemma plain_full_stop_ok: "\<not> js_whitespace full_stop" "full_stop \<noteq> at_sign" "\<not> js_whitespace at_sign"
  by (simp_all add: js_whitespace_def full_stop_def at_sign_def)

lemma count_plain: "list_all plain w \<Longrightarrow> count_list w at_sign = 0"
  by (induction w) (auto simp: plain_def)

lemma takeWhile_plain: "list_all plain l \<Longrightarrow> takeWhile (\<lambda>c. c \<noteq> at_sign) (l @ at_sign # r) = l"
  by (induction l) (auto simp: plain_def)

lemma dropWhile_plain: "list_all plain l \<Longrightarrow> dropWhile (\<lambda>c. c \<noteq> at_sign) (l @ at_sign # r) = at_sign # r"
  by (induction l) (auto simp: plain_def)

lemma has_inner_dot_iff:
  "has_inner_dot d \<longleftrightarrow> (\<exists>a b. d = a @ full_stop # b \<and> a \<noteq> [] \<and> b \<noteq> [])"
proof
  assume "has_inner_dot d"
  then obtain i where i: "1 \<le> i" "i < length d - 1" "d ! i = full_stop"
    by (auto simp: has_inner_dot_def list_ex_iff)
  then have "i < length d" by simp
  from id_take_nth_drop [OF this] i have "d = take i d @ full_stop # drop (Suc i) d"
    by simp
  moreover have "take i d \<noteq> []" using i by auto
  moreover have "drop (Suc i) d \<noteq> []" using i by auto
  ultimately show "\<exists>a b. d = a @ full_stop # b \<and> a \<noteq> [] \<and> b \<noteq> []" by blast
next
  assume "\<exists>a b. d = a @ full_stop # b \<and> a \<noteq> [] \<and> b \<noteq> []"
  then obtain a b where d: "d = a @ full_stop # b" "a \<noteq> []" "b \<noteq> []" by blast
  then have "1 \<le> length a" "length a < length d - 1" "d ! length a = full_stop"
    by (auto simp: Suc_le_eq)
  then show "has_inner_dot d"
    unfolding has_inner_dot_def list_ex_iff by auto
qed

lemma split_at_sign:
  assumes "count_list e at_sign = 1"
  shows "e = email_local e @ at_sign # email_domain e \<and> count_list (email_domain e) at_sign = 0"
  using assms unfolding email_local_def email_domain_def
proof (induction e)
  case Nil
  then show ?case by simp
next
  case (Cons c e)
  then show ?case by (auto split: if_splits)
qed

lemma local_plain:
  "list_all (\<lambda>c. \<not> js_whitespace c) e \<Longrightarrow> list_all plain (email_local e)"
  unfolding email_local_def by (induction e) (auto simp: plain_def)

lemma no_at_plain:
  "list_all (\<lambda>c. \<not> js_whitespace c) d \<Longrightarrow> count_list d at_sign = 0 \<Longrightarrow> list_all plain d"
  by (induction d) (auto simp: plain_def split: if_splits)

lemma emailRegex_meets_pattern: "rx_test emailRegex e \<longleftrightarrow> email_pattern_spec e"
proof
  assume "rx_test emailRegex e"
  then obtain l a b where e: "e = l @ at_sign # a @ full_stop # b"
    and ne: "l \<noteq> []" "a \<noteq> []" "b \<noteq> []"
    and pl: "list_all plain l" "list_all plain a" "list_all plain b"
    by (auto simp: rx_test_lang lang_emailRegex)
  have ws: "list_all (\<lambda>c. \<not> js_whitespace c) e"
    using pl by (auto simp: e list_all_iff plain_def plain_full_stop_ok)
  have cnt: "count_list e at_sign = 1"
    using pl by (simp add: e count_plain plain_full_stop_ok)
  have loc: "email_local e = l"
    unfolding email_local_def e by (rule takeWhile_plain [OF pl(1)])
  have dom: "email_domain e = a @ full_stop # b"
    unfolding email_domain_def e by (simp add: dropWhile_plain [OF pl(1)])
  have "has_inner_dot (email_domain e)"
    unfolding dom has_inner_dot_iff using ne by blast
  with ws cnt loc ne show "email_pattern_spec e"
    by (simp add: email_pattern_spec_def)
next
  assume "email_pattern_spec e"
  then have ws: "list_all (\<lambda>c. \<not> js_whitespace c) e"
    and cnt: "count_list e at_sign = 1"
    and loc: "email_local e \<noteq> []"
    and dot: "has_inner_dot (email_domain e)"
    by (simp_all add: email_pattern_spec_def)
  from split_at_sign [OF cnt]
  have e: "e = email_local e @ at_sign # email_domain e"
    and c0: "count_list (email_domain e) at_sign = 0" by simp_all
  from dot obtain a b where d: "email_domain e = a @ full_stop # b" "a \<noteq> []" "b \<noteq> []"
    unfolding has_inner_dot_iff by blast
  have "list_all (\<lambda>c. \<not> js_whitespace c) (email_domain e)"
  proof -
    from ws e have "list_all (\<lambda>c. \<not> js_whitespace c) (email_local e @ at_sign # email_domain e)"
      by simp
    then show ?thesis by simp
  qed
  then have "list_all plain (email_domain e)"
    using c0 by (rule no_at_plain)
  then have pab: "list_all plain a" "list_all plain b"
    by (simp_all add: d)
  have "e = email_local e @ at_sign # a @ full_stop # b"
    using e d by simp
  with loc d pab local_plain [OF ws] show "rx_test emailRegex e"
    unfolding rx_test_lang lang_emailRegex
    by (intro exI [of _ "email_local e"] exI [of _ a] exI [of _ b]) simp
qed

section \<open>Theorems: the page tree and the error messages\<close>

lemma query_detach_None: "query_detach cls es = None \<Longrightarrow> count_class cls es = 0"
  by (induction cls es rule: query_detach.induct) (auto split: if_splits option.splits)

lemma query_detach_Some:
  "query_detach cls es = Some (gone, es') \<Longrightarrow>
     count_class cls es' < count_class cls es \<and> set (controls_in es') \<subseteq> set (controls_in es)"
proof (induction cls es arbitrary: gone es' rule: query_detach.induct)
  case (1 cls)
  then show ?case by simp
next
  case (2 cls fs cs st tx kids es)
  show ?case
  proof (cases "cls \<in> set cs")
    case True
    with "2.prems" show ?thesis by auto
  next
    case out: False
    show ?thesis
    proof (cases "query_detach cls kids")
      case (Some r)
      obtain g1 kids' where r: "r = (g1, kids')" by (cases r)
      with out Some "2.IH"(1) have
        "count_class cls kids' < count_class cls kids \<and>
         set (controls_in kids') \<subseteq> set (controls_in kids)"
        by simp
      with out Some r "2.prems" show ?thesis by auto
    next
      case None
      with out "2.prems" obtain es1 where q: "query_detach cls es = Some (gone, es1)"
        and e: "es' = Elem fs cs st tx kids # es1"
        by (auto split: option.splits)
      from out None q "2.IH"(2) have
        "count_class cls es1 < count_class cls es \<and>
         set (controls_in es1) \<subseteq> set (controls_in es)"
        by simp
      with out e show ?thesis by auto
    qed
  qed
qed

lemma count_class_append: "count_class cls (es @ fs) = count_class cls es + count_class cls fs"
  by (induction cls es rule: count_class.induct) simp_all

lemma controls_in_append: "controls_in (es @ fs) = controls_in es @ controls_in fs"
  by (induction es rule: controls_in.induct) simp_all

lemma count_cleared:
  "count_class ''error-message'' es \<le> 1 \<Longrightarrow> count_class ''error-message'' (cleared es) = 0"
  using query_detach_None [of "''error-message''" es]
    query_detach_Some [of "''error-message''" es]
  by (auto simp: cleared_def split: option.splits)

lemma controls_cleared: "set (controls_in (cleared es)) \<subseteq> set (controls_in es)"
  using query_detach_Some [of "''error-message''" es]
  by (auto simp: cleared_def split: option.splits)

lemma parent_of_absent: "f \<notin> set (controls_in page) \<Longrightarrow> parent_of f page = None"
  by (induction f page rule: parent_of.induct) auto

lemma parent_of_holds: "parent_of f page = Some p \<Longrightarrow> f \<in> set (controls p)"
  by (induction f page rule: parent_of.induct) (auto split: if_splits option.splits)

lemma parent_of_also:
  "parent_of f page = Some p \<Longrightarrow> g \<in> set (controls p) \<Longrightarrow> parent_of g page \<noteq> None"
  by (induction f page rule: parent_of.induct) (auto split: if_splits option.splits)

lemma parent_of_append:
  "parent_of f (page @ extra) =
     (case parent_of f page of Some p \<Rightarrow> Some p | None \<Rightarrow> parent_of f extra)"
  by (induction f page rule: parent_of.induct) (auto split: option.splits)

lemma set_children_same:
  "parent_of f page = Some p \<Longrightarrow> set_children f (children p) page = page"
  by (induction f page rule: parent_of.induct) (auto split: if_splits option.splits)

lemma set_children_append:
  "parent_of f page \<noteq> None \<Longrightarrow> set_children f new (page @ extra) = set_children f new page @ extra"
  by (induction f page rule: parent_of.induct) (auto split: if_splits option.splits)

lemma parent_of_set_children:
  "parent_of f page = Some p \<Longrightarrow>
     parent_of f (set_children f new page) =
       Some (Elem (controls p) (classes p) (style p) (textContent p) new)"
  by (induction f page rule: parent_of.induct) (auto split: if_splits option.splits)

lemma set_children_twice:
  "parent_of f page \<noteq> None \<Longrightarrow>
     set_children f new2 (set_children f new1 page) = set_children f new2 page"
proof (induction f page rule: parent_of.induct)
  case (1 f)
  then show ?case by simp
next
  case (2 f fs cs st tx kids es)
  show ?case
  proof (cases "f \<in> set fs")
    case True
    then show ?thesis by simp
  next
    case out: False
    show ?thesis
    proof (cases "parent_of f kids")
      case (Some p)
      then have "parent_of f (set_children f new1 kids) \<noteq> None"
        by (simp add: parent_of_set_children)
      with out Some "2.IH"(1) show ?thesis by (auto split: option.splits)
    next
      case None
      with out "2.prems" "2.IH"(2) show ?thesis by (auto split: option.splits)
    qed
  qed
qed

lemma same_parent:
  "parent_of f page = Some pf \<Longrightarrow> parent_of g page = Some pg \<Longrightarrow>
     g \<in> set (controls pf) \<Longrightarrow> f \<in> set (controls pg) \<Longrightarrow> pg = pf"
proof (induction f page rule: parent_of.induct)
  case (1 f)
  then show ?case by simp
next
  case (2 f fs cs st tx kids es)
  show ?case
  proof (cases "f \<in> set fs")
    case True
    with "2.prems" show ?thesis by auto
  next
    case out: False
    show ?thesis
    proof (cases "g \<in> set fs")
      case True
      with out "2.prems" show ?thesis by auto
    next
      case gout: False
      show ?thesis
      proof (cases "parent_of f kids")
        case (Some p)
        with out "2.prems"(1) have p: "p = pf" by simp
        from Some p "2.prems"(3) have "parent_of g kids \<noteq> None"
          using parent_of_also by blast
        with gout "2.prems"(2) have "parent_of g kids = Some pg" by (auto split: option.splits)
        with out Some p "2.IH"(1) "2.prems" show ?thesis by simp
      next
        case None
        with out "2.prems"(1) have fe: "parent_of f es = Some pf" by simp
        have "parent_of g kids = None"
        proof (rule ccontr)
          assume "parent_of g kids \<noteq> None"
          then obtain q where q: "parent_of g kids = Some q" by auto
          with gout "2.prems"(2) have "q = pg" by simp
          with q "2.prems"(4) have "parent_of f kids \<noteq> None"
            using parent_of_also by blast
          with None show False by simp
        qed
        with gout "2.prems"(2) have "parent_of g es = Some pg" by simp
        with out None fe "2.IH"(2) "2.prems" show ?thesis by simp
      qed
    qed
  qed
qed

text \<open>A control whose parent lies apart from the edited one keeps its parent.\<close>

lemma parent_of_other:
  assumes "g \<notin> set (controls_in new)"
    and "\<And>pf. parent_of f page = Some pf \<Longrightarrow>
           g \<notin> set (controls pf) \<and> g \<notin> set (controls_in (children pf))"
    and "\<And>pg. parent_of g page = Some pg \<Longrightarrow>
           f \<notin> set (controls pg) \<and> f \<notin> set (controls_in (children pg))"
  shows "parent_of g (set_children f new page) = parent_of g page"
  using assms
proof (induction f page rule: parent_of.induct)
  case (1 f)
  then show ?case by simp
next
  case (2 f fs cs st tx kids es)
  show ?case
  proof (cases "f \<in> set fs")
    case True
    with "2.prems"(2) [of "Elem fs cs st tx kids"]
    have g: "g \<notin> set fs" "g \<notin> set (controls_in kids)" by simp_all
    with True "2.prems"(1) show ?thesis
      by (simp add: parent_of_absent)
  next
    case out: False
    show ?thesis
    proof (cases "parent_of f kids")
      case (Some p)
      have gout: "g \<notin> set fs"
      proof
        assume "g \<in> set fs"
        with "2.prems"(3) [of "Elem fs cs st tx kids"]
        have "f \<notin> set (controls_in kids)" by simp
        then have "parent_of f kids = None" by (rule parent_of_absent)
        with Some show False by simp
      qed
      have "parent_of g (set_children f new kids) = parent_of g kids"
      proof (rule "2.IH"(1) [OF out "2.prems"(1)])
        fix pf assume "parent_of f kids = Some pf"
        with out have "parent_of f (Elem fs cs st tx kids # es) = Some pf" by simp
        then show "g \<notin> set (controls pf) \<and> g \<notin> set (controls_in (children pf))"
          by (rule "2.prems"(2))
      next
        fix pg assume "parent_of g kids = Some pg"
        with gout have "parent_of g (Elem fs cs st tx kids # es) = Some pg" by simp
        then show "f \<notin> set (controls pg) \<and> f \<notin> set (controls_in (children pg))"
          by (rule "2.prems"(3))
      qed
      with out Some gout show ?thesis by simp
    next
      case None
      show ?thesis
      proof (cases "g \<in> set fs \<or> parent_of g kids \<noteq> None")
        case True
        with out None show ?thesis by (auto split: option.splits)
      next
        case False
        then have gout: "g \<notin> set fs" and gk: "parent_of g kids = None" by simp_all
        have "parent_of g (set_children f new es) = parent_of g es"
        proof (rule "2.IH"(2) [OF out None "2.prems"(1)])
          fix pf assume "parent_of f es = Some pf"
          with out None have "parent_of f (Elem fs cs st tx kids # es) = Some pf" by simp
          then show "g \<notin> set (controls pf) \<and> g \<notin> set (controls_in (children pf))"
            by (rule "2.prems"(2))
        next
          fix pg assume "parent_of g es = Some pg"
          with gout gk have "parent_of g (Elem fs cs st tx kids # es) = Some pg" by simp
          then show "f \<notin> set (controls pg) \<and> f \<notin> set (controls_in (children pg))"
            by (rule "2.prems"(3))
        qed
        with out None gout gk show ?thesis by simp
      qed
    qed
  qed
qed

lemma parent_of_shared:
  "parent_of f page = Some pf \<Longrightarrow> parent_of g page = Some pg \<Longrightarrow>
     g \<in> set (controls pf) \<Longrightarrow> f \<in> set (controls pg) \<Longrightarrow>
     parent_of g (set_children f new page) =
       Some (Elem (controls pf) (classes pf) (style pf) (textContent pf) new)"
proof (induction f page rule: parent_of.induct)
  case (1 f)
  then show ?case by simp
next
  case (2 f fs cs st tx kids es)
  show ?case
  proof (cases "f \<in> set fs")
    case True
    with "2.prems" show ?thesis by auto
  next
    case out: False
    have gout: "g \<notin> set fs"
    proof
      assume "g \<in> set fs"
      with "2.prems"(2) have "pg = Elem fs cs st tx kids" by simp
      with "2.prems"(4) out show False by simp
    qed
    show ?thesis
    proof (cases "parent_of f kids")
      case (Some p)
      with out "2.prems"(1) have p: "p = pf" by simp
      from Some p "2.prems"(3) have "parent_of g kids \<noteq> None"
        using parent_of_also by blast
      with gout "2.prems"(2) have "parent_of g kids = Some pg" by (auto split: option.splits)
      with out Some p "2.IH"(1) "2.prems" gout show ?thesis by simp
    next
      case None
      with out "2.prems"(1) have fe: "parent_of f es = Some pf" by simp
      have gk: "parent_of g kids = None"
      proof (rule ccontr)
        assume "parent_of g kids \<noteq> None"
        then obtain q where q: "parent_of g kids = Some q" by auto
        with gout "2.prems"(2) have "q = pg" by simp
        with q "2.prems"(4) have "parent_of f kids \<noteq> None"
          using parent_of_also by blast
        with None show False by simp
      qed
      with gout "2.prems"(2) have "parent_of g es = Some pg" by simp
      with out None fe "2.IH"(2) "2.prems" gout gk show ?thesis by simp
    qed
  qed
qed

text \<open>
  The effect of replacing the children of a field's parent on the parent of any field
  that is unnested with it: a field with the same parent sees the new children, any
  other field keeps its parent as it was.
\<close>

lemma edit_effect:
  assumes pf: "parent_of f page = Some pf"
    and sub: "set (controls_in new) \<subseteq> set (controls_in (children pf))"
    and un: "unnested f g page"
  shows "parent_of g (set_children f new page @ extra) =
           (if g \<in> set (controls pf)
            then Some (Elem (controls pf) (classes pf) (style pf) (textContent pf) new)
            else parent_of g page)"
proof -
  from un pf obtain pg where pg: "parent_of g page = Some pg"
    and alt: "(g \<in> set (controls pf) \<and> f \<in> set (controls pg)) \<or>
              (g \<notin> set (controls pf) \<and> g \<notin> set (controls_in (children pf)) \<and>
               f \<notin> set (controls pg) \<and> f \<notin> set (controls_in (children pg)))"
    by (auto simp: unnested_def split: option.splits)
  show ?thesis
  proof (cases "g \<in> set (controls pf)")
    case True
    with alt have "f \<in> set (controls pg)" by blast
    from parent_of_shared [OF pf pg True this, of new] True show ?thesis
      by (simp add: parent_of_append)
  next
    case False
    with alt have a: "g \<notin> set (controls_in (children pf))"
      "f \<notin> set (controls pg)" "f \<notin> set (controls_in (children pg))" by blast+
    have "parent_of g (set_children f new page) = parent_of g page"
    proof (rule parent_of_other)
      from a(1) sub show "g \<notin> set (controls_in new)" by blast
    next
      fix q assume "parent_of f page = Some q"
      with pf have "q = pf" by simp
      with False a(1) show "g \<notin> set (controls q) \<and> g \<notin> set (controls_in (children q))"
        by simp
    next
      fix q assume "parent_of g page = Some q"
      with pg have "q = pg" by simp
      with a(2,3) show "f \<notin> set (controls q) \<and> f \<notin> set (controls_in (children q))"
        by simp
    qed
    with False pg show ?thesis
      by (simp add: parent_of_append)
  qed
qed

lemma unnested_same: "parent_of f page = Some p \<Longrightarrow> unnested f f page"
  by (simp add: unnested_def parent_of_holds)

lemma fields_unnested_iff: "fields_unnested page \<longleftrightarrow> (\<forall>f g. unnested f g page)"
proof
  assume "fields_unnested page"
  then have "unnested f g page" for f g
    by (cases f; cases g) (simp_all add: fields_unnested_def all_fields_def)
  then show "\<forall>f g. unnested f g page" by blast
next
  assume "\<forall>f g. unnested f g page"
  then show "fields_unnested page"
    by (simp add: fields_unnested_def all_fields_def)
qed

lemma unnested_parent: "unnested f g page \<Longrightarrow> \<exists>p. parent_of f page = Some p"
  by (auto simp: unnested_def split: option.splits)

lemma unnested_edit:
  assumes pf: "parent_of f page = Some pf"
    and sub: "set (controls_in new) \<subseteq> set (controls_in (children pf))"
    and all: "\<And>a b. unnested a b page"
  shows "unnested g h (set_children f new page @ extra)"
proof -
  let ?page' = "set_children f new page @ extra"
  let ?pf' = "Elem (controls pf) (classes pf) (style pf) (textContent pf) new"
  have eg: "parent_of g ?page' = (if g \<in> set (controls pf) then Some ?pf' else parent_of g page)"
    by (rule edit_effect [OF pf sub all])
  have eh: "parent_of h ?page' = (if h \<in> set (controls pf) then Some ?pf' else parent_of h page)"
    by (rule edit_effect [OF pf sub all])
  from all [of g h] obtain pg ph where pg: "parent_of g page = Some pg"
    and ph: "parent_of h page = Some ph"
    and gh: "(h \<in> set (controls pg) \<and> g \<in> set (controls ph)) \<or>
             (h \<notin> set (controls pg) \<and> h \<notin> set (controls_in (children pg)) \<and>
              g \<notin> set (controls ph) \<and> g \<notin> set (controls_in (children ph)))"
    by (auto simp: unnested_def split: option.splits)
  from all [of f g] pf pg have fg:
    "(g \<in> set (controls pf) \<and> f \<in> set (controls pg)) \<or>
     (g \<notin> set (controls pf) \<and> g \<notin> set (controls_in (children pf)) \<and>
      f \<notin> set (controls pg) \<and> f \<notin> set (controls_in (children pg)))"
    by (simp add: unnested_def)
  from all [of f h] pf ph have fh:
    "(h \<in> set (controls pf) \<and> f \<in> set (controls ph)) \<or>
     (h \<notin> set (controls pf) \<and> h \<notin> set (controls_in (children pf)) \<and>
      f \<notin> set (controls ph) \<and> f \<notin> set (controls_in (children ph)))"
    by (simp add: unnested_def)
  show ?thesis
  proof (cases "g \<in> set (controls pf)")
    case gT: True
    with fg have "f \<in> set (controls pg)" by blast
    from same_parent [OF pf pg gT this] have pgf: "pg = pf" .
    show ?thesis
    proof (cases "h \<in> set (controls pf)")
      case True
      with gT eg eh show ?thesis by (simp add: unnested_def)
    next
      case hF: False
      with fh have "h \<notin> set (controls_in (children pf))" by blast
      with sub have hn: "h \<notin> set (controls_in new)" by blast
      from hF gh pgf have "g \<notin> set (controls ph) \<and> g \<notin> set (controls_in (children ph))"
        by blast
      with gT hF eg eh ph hn show ?thesis by (simp add: unnested_def)
    qed
  next
    case gF: False
    with fg have "g \<notin> set (controls_in (children pf))" by blast
    with sub have gn: "g \<notin> set (controls_in new)" by blast
    show ?thesis
    proof (cases "h \<in> set (controls pf)")
      case hT: True
      with fh have "f \<in> set (controls ph)" by blast
      from same_parent [OF pf ph hT this] have phf: "ph = pf" .
      from gF gh phf have "h \<notin> set (controls pg) \<and> h \<notin> set (controls_in (children pg))"
        by blast
      with gF hT eg eh pg gn show ?thesis by (simp add: unnested_def)
    next
      case False
      with gF eg eh pg ph gh show ?thesis by (simp add: unnested_def)
    qed
  qed
qed

lemma get_set_input: "get_input g (set_input f i s) = (if g = f then i else get_input g s)"
  by (cases f; cases g) simp_all

lemma set_input_rest:
  "roots (set_input f i s) = roots s" "submitBtn (set_input f i s) = submitBtn s"
  "timers (set_input f i s) = timers s" "form_messages (set_input f i s) = form_messages s"
  "next_node (set_input f i s) = next_node s"
  by (cases f; simp)+

lemma get_input_roots_update: "get_input g (s\<lparr>roots := r\<rparr>) = get_input g s"
  by (cases g) simp_all

lemma get_input_clearError:
  "get_input g (clearError f s) =
     (if g = f then (get_input f s)\<lparr>borderColor := ''''\<rparr> else get_input g s)"
  by (simp add: clearError_def Let_def get_set_input get_input_roots_update
      split: option.splits prod.splits)

lemma rest_clearError:
  "submitBtn (clearError f s) = submitBtn s" "timers (clearError f s) = timers s"
  "form_messages (clearError f s) = form_messages s" "next_node (clearError f s) = next_node s"
  by (simp_all add: clearError_def Let_def set_input_rest split: option.splits prod.splits)

lemma get_input_showError:
  "get_input g (showError f m s) =
     (if g = f then (get_input f s)\<lparr>borderColor := ''#d32f2f''\<rparr> else get_input g s)"
  by (simp add: showError_def Let_def get_set_input get_input_roots_update
      get_input_clearError split: option.splits)

lemma rest_showError:
  "submitBtn (showError f m s) = submitBtn s" "timers (showError f m s) = timers s"
  "form_messages (showError f m s) = form_messages s" "next_node (showError f m s) = next_node s"
  by (simp_all add: showError_def Let_def set_input_rest rest_clearError split: option.splits)

lemmas input_clearError =
  get_input_clearError [of NameField, simplified]
  get_input_clearError [of EmailField, simplified]
  get_input_clearError [of MessageField, simplified]

lemmas input_showError =
  get_input_showError [of NameField, simplified]
  get_input_showError [of EmailField, simplified]
  get_input_showError [of MessageField, simplified]

text \<open>The tree after \<^const>\<open>clearError\<close> and after \<^const>\<open>showError\<close>.\<close>

lemma roots_clearError:
  assumes "parent_of f (roots s) = Some p"
  shows "\<exists>extra. roots (clearError f s) =
           set_children f (cleared (children p)) (roots s) @ extra"
proof (cases "query_detach ''error-message'' (children p)")
  case None
  with assms have "roots (clearError f s) = roots s"
    by (simp add: clearError_def Let_def set_input_rest)
  moreover from None have "cleared (children p) = children p"
    by (simp add: cleared_def)
  ultimately have "roots (clearError f s) = set_children f (cleared (children p)) (roots s) @ []"
    using set_children_same [OF assms] by simp
  then show ?thesis by blast
next
  case (Some r)
  obtain gone kids where r: "r = (gone, kids)" by (cases r)
  with Some assms have "roots (clearError f s) = set_children f kids (roots s) @ [gone]"
    by (simp add: clearError_def Let_def set_input_rest)
  moreover from Some r have "cleared (children p) = kids"
    by (simp add: cleared_def)
  ultimately show ?thesis by blast
qed

lemma roots_showError:
  assumes "parent_of f (roots s) = Some p"
  shows "\<exists>extra. roots (showError f m s) =
           set_children f (cleared (children p) @ [error_div m]) (roots s) @ extra"
proof -
  from roots_clearError [OF assms] obtain extra where
    c: "roots (clearError f s) = set_children f (cleared (children p)) (roots s) @ extra"
    by blast
  let ?p1 = "Elem (controls p) (classes p) (style p) (textContent p) (cleared (children p))"
  have p1: "parent_of f (roots (clearError f s)) = Some ?p1"
    by (simp add: c parent_of_append parent_of_set_children [OF assms])
  have ne: "parent_of f (set_children f (cleared (children p)) (roots s)) \<noteq> None"
    by (simp add: parent_of_set_children [OF assms])
  have "roots (showError f m s) =
          set_children f (cleared (children p) @ [error_div m]) (roots (clearError f s))"
    using p1 by (simp add: showError_def Let_def set_input_rest)
  also have "\<dots> = set_children f (cleared (children p) @ [error_div m])
                    (set_children f (cleared (children p)) (roots s)) @ extra"
    by (simp add: c set_children_append [OF ne])
  also have "\<dots> = set_children f (cleared (children p) @ [error_div m]) (roots s) @ extra"
    using assms by (simp add: set_children_twice)
  finally show ?thesis by blast
qed

lemma controls_error_div: "controls_in [error_div m] = []"
  by (simp add: error_div_def)

lemma count_error_div: "count_class ''error-message'' [error_div m] = 1"
  by (simp add: error_div_def)

text \<open>
  On a page with unnested fields, an error shown or cleared for one field changes the
  children of that field's parent and of nothing else that is a field's parent.
\<close>

lemma field_parent_clearError:
  assumes all: "\<And>a b. unnested a b (roots s)" and pf: "parent_of f (roots s) = Some pf"
  shows "field_parent g (clearError f s) =
           (if g \<in> set (controls pf) then cleared (children pf) else field_parent g s)"
    and "unnested a b (roots (clearError f s))"
    and "map_option controls (parent_of g (roots (clearError f s))) =
           map_option controls (parent_of g (roots s))"
proof -
  from roots_clearError [OF pf] obtain extra where
    r: "roots (clearError f s) = set_children f (cleared (children pf)) (roots s) @ extra"
    by blast
  have sub: "set (controls_in (cleared (children pf))) \<subseteq> set (controls_in (children pf))"
    by (rule controls_cleared)
  note e = edit_effect [OF pf sub all, of g extra]
  show "field_parent g (clearError f s) =
           (if g \<in> set (controls pf) then cleared (children pf) else field_parent g s)"
    using e by (simp add: field_parent_def r)
  show "unnested a b (roots (clearError f s))"
    unfolding r by (rule unnested_edit [OF pf sub all])
  from all [of f g] pf obtain pg where pg: "parent_of g (roots s) = Some pg"
    and alt: "g \<in> set (controls pf) \<longrightarrow> f \<in> set (controls pg)"
    by (auto simp: unnested_def split: option.splits)
  show "map_option controls (parent_of g (roots (clearError f s))) =
           map_option controls (parent_of g (roots s))"
  proof (cases "g \<in> set (controls pf)")
    case True
    with alt have "pg = pf" using same_parent [OF pf pg] by blast
    with True e pg show ?thesis by (simp add: r)
  next
    case False
    with e show ?thesis by (simp add: r)
  qed
qed

lemma field_parent_showError:
  assumes all: "\<And>a b. unnested a b (roots s)" and pf: "parent_of f (roots s) = Some pf"
  shows "field_parent g (showError f m s) =
           (if g \<in> set (controls pf) then cleared (children pf) @ [error_div m]
            else field_parent g s)"
    and "unnested a b (roots (showError f m s))"
    and "map_option controls (parent_of g (roots (showError f m s))) =
           map_option controls (parent_of g (roots s))"
proof -
  from roots_showError [OF pf] obtain extra where
    r: "roots (showError f m s) =
          set_children f (cleared (children pf) @ [error_div m]) (roots s) @ extra"
    by blast
  have sub: "set (controls_in (cleared (children pf) @ [error_div m]))
               \<subseteq> set (controls_in (children pf))"
    using controls_cleared [of "children pf"]
    by (simp add: controls_in_append controls_error_div)
  note e = edit_effect [OF pf sub all, of g extra]
  show "field_parent g (showError f m s) =
           (if g \<in> set (controls pf) then cleared (children pf) @ [error_div m]
            else field_parent g s)"
    using e by (simp add: field_parent_def r)
  show "unnested a b (roots (showError f m s))"
    unfolding r by (rule unnested_edit [OF pf sub all])
  from all [of f g] pf obtain pg where pg: "parent_of g (roots s) = Some pg"
    and alt: "g \<in> set (controls pf) \<longrightarrow> f \<in> set (controls pg)"
    by (auto simp: unnested_def split: option.splits)
  show "map_option controls (parent_of g (roots (showError f m s))) =
           map_option controls (parent_of g (roots s))"
  proof (cases "g \<in> set (controls pf)")
    case True
    with alt have "pg = pf" using same_parent [OF pf pg] by blast
    with True e pg show ?thesis by (simp add: r)
  next
    case False
    with e show ?thesis by (simp add: r)
  qed
qed

lemma clearError_keeps:
  assumes all: "\<And>a b. unnested a b (roots s)" and cnt: "\<And>g. error_count g s \<le> 1"
  shows "unnested a b (roots (clearError f s))"
    and "error_count g (clearError f s) \<le> 1"
proof -
  from unnested_parent [OF all [of f f]] obtain pf where pf: "parent_of f (roots s) = Some pf"
    by blast
  have c0: "count_class ''error-message'' (cleared (children pf)) = 0"
    using cnt [of f] pf by (simp add: error_count_def field_parent_def count_cleared)
  show "unnested a b (roots (clearError f s))"
    by (rule field_parent_clearError(2) [OF all pf])
  show "error_count g (clearError f s) \<le> 1"
    using cnt [of g] c0
    by (simp add: error_count_def field_parent_clearError(1) [OF all pf])
qed

lemma showError_keeps:
  assumes all: "\<And>a b. unnested a b (roots s)" and cnt: "\<And>g. error_count g s \<le> 1"
  shows "unnested a b (roots (showError f m s))"
    and "error_count g (showError f m s) \<le> 1"
proof -
  from unnested_parent [OF all [of f f]] obtain pf where pf: "parent_of f (roots s) = Some pf"
    by blast
  have c0: "count_class ''error-message'' (cleared (children pf)) = 0"
    using cnt [of f] pf by (simp add: error_count_def field_parent_def count_cleared)
  show "unnested a b (roots (showError f m s))"
    by (rule field_parent_showError(2) [OF all pf])
  show "error_count g (showError f m s) \<le> 1"
    using cnt [of g] c0
    by (simp add: error_count_def field_parent_showError(1) [OF all pf] count_class_append
        count_error_div)
qed

lemma apply_outcome_keeps:
  assumes all: "\<And>a b. unnested a b (roots s)" and cnt: "\<And>g. error_count g s \<le> 1"
  shows "unnested a b (roots (apply_outcome x s))"
    and "error_count g (apply_outcome x s) \<le> 1"
proof -
  show "unnested a b (roots (apply_outcome x s))"
    using showError_keeps(1) [OF all cnt] clearError_keeps(1) [OF all cnt]
    by (cases x) simp_all
  show "error_count g (apply_outcome x s) \<le> 1"
    using showError_keeps(2) [OF all cnt] clearError_keeps(2) [OF all cnt]
    by (cases x) simp_all
qed

lemma run_outcomes_keeps:
  assumes "\<And>a b. unnested a b (roots s)" and "\<And>g. error_count g s \<le> 1"
  shows "unnested a b (roots (run_outcomes xs s)) \<and> error_count g (run_outcomes xs s) \<le> 1"
  using assms unfolding run_outcomes_def
proof (induction xs arbitrary: s a b g)
  case Nil
  then show ?case by simp
next
  case (Cons x xs)
  have u: "unnested c d (roots (apply_outcome x s))" for c d
    by (rule apply_outcome_keeps(1)) (rule Cons.prems)+
  have e: "error_count h (apply_outcome x s) \<le> 1" for h
    by (rule apply_outcome_keeps(2)) (rule Cons.prems)+
  from Cons.IH [of "apply_outcome x s", OF u e] show ?case by simp
qed

lemma validateName_cases:
  "validateName s =
     (if length (js_trim (val (nameInput s))) < 2 then (showError NameField name_message s, False)
      else (clearError NameField s, True))"
  by (simp add: validateName_def Let_def)

lemma validateEmail_cases:
  "validateEmail s =
     (if email_pattern_spec (js_trim (val (emailInput s))) then (clearError EmailField s, True)
      else (showError EmailField email_message s, False))"
  by (simp add: validateEmail_def Let_def emailRegex_meets_pattern)

lemma validateMessage_cases:
  "validateMessage s =
     (if length (js_trim (val (messageInput s))) < 10
      then (showError MessageField message_message s, False)
      else (clearError MessageField s, True))"
  by (simp add: validateMessage_def Let_def)

lemmas form_eval =
  validateName_cases validateEmail_cases validateMessage_cases showError_def clearError_def
  Let_def form_on_def contact_form_def blank_input_def error_div_def name_message_def
  email_message_def message_message_def js_def js_trim_def js_whitespace_def
  email_pattern_spec_def at_sign_def full_stop_def email_local_def email_domain_def
  has_inner_dot_def upt_rec field_parent_def error_children_def error_count_def

text \<open>
  C8, as stated, fails. \<^verbatim>\<open>clearError\<close> removes the first error message anywhere
  below the field's parent. On a page whose name input is a child of the form while the
  email input sits in a row inside the form, an error for the name, then one for the
  email, then one for the name again (three blur events with a short name and a bad
  email) removes the email's message, which comes first below the form, and leaves two
  name messages as children of the form.
\<close>

theorem one_error_message_counterexample:
  "error_count NameField (form_on nested_page (js ''A'') (js ''bad-email'') []) = 0 \<and>
   error_count EmailField (form_on nested_page (js ''A'') (js ''bad-email'') []) = 0 \<and>
   error_count MessageField (form_on nested_page (js ''A'') (js ''bad-email'') []) = 0 \<and>
   run_outcomes [Failed NameField name_message, Failed EmailField email_message,
                 Failed NameField name_message]
     (form_on nested_page (js ''A'') (js ''bad-email'') []) =
     fst (validateName (fst (validateEmail (fst (validateName
       (form_on nested_page (js ''A'') (js ''bad-email'') [])))))) \<and>
   length (error_children NameField
     (run_outcomes [Failed NameField name_message, Failed EmailField email_message,
                    Failed NameField name_message]
        (form_on nested_page (js ''A'') (js ''bad-email'') []))) = 2 \<and>
   field_parent EmailField
     (run_outcomes [Failed NameField name_message, Failed EmailField email_message,
                    Failed NameField name_message]
        (form_on nested_page (js ''A'') (js ''bad-email'') [])) = []"
  by (simp add: run_outcomes_def form_eval nested_page_def)

text \<open>
  C8, amended: on a page where every field has a parent and no field's parent lies
  inside the parent of another field (two fields share their parent, or their parents
  lie apart), and which starts with at most one error-message element below each
  field's parent, after every sequence of validation outcomes (errors shown and cleared,
  for any fields in any order) at most one error-message element lies below the parent
  of every field. Showing a further error leaves exactly one, the new message with its
  class, colour and text, as the last child of the field's parent, with the error border
  set; a successful validation leaves none and clears the border.
\<close>

theorem one_error_message_per_field:
  assumes "fields_unnested (roots s)"
    and "error_count NameField s \<le> 1" and "error_count EmailField s \<le> 1"
    and "error_count MessageField s \<le> 1"
  shows "error_count g (run_outcomes xs s) \<le> 1 \<and>
         error_count f (showError f m (run_outcomes xs s)) = 1 \<and>
         last (field_parent f (showError f m (run_outcomes xs s))) =
           Elem [] [''error-message'']
             [(''color'', ''#d32f2f''), (''fontSize'', ''0.875rem''), (''marginTop'', ''0.25rem'')]
             m [] \<and>
         borderColor (get_input f (showError f m (run_outcomes xs s))) = ''#d32f2f'' \<and>
         error_count f (clearError f (run_outcomes xs s)) = 0 \<and>
         borderColor (get_input f (clearError f (run_outcomes xs s))) = ''''"
proof -
  have start: "error_count h s \<le> 1" for h
    using assms(2-4) by (cases h) simp_all
  have un: "unnested a b (roots s)" for a b
    using assms(1) by (simp add: fields_unnested_iff)
  let ?t = "run_outcomes xs s"
  have now: "unnested a b (roots ?t)" "error_count h ?t \<le> 1" for a b h
    using run_outcomes_keeps [OF un start] by blast+
  from unnested_parent [OF now(1) [of f f]] obtain pf where pf: "parent_of f (roots ?t) = Some pf"
    by blast
  have own: "f \<in> set (controls pf)"
    by (rule parent_of_holds [OF pf])
  have c0: "count_class ''error-message'' (cleared (children pf)) = 0"
    using now(2) [of f] pf by (simp add: error_count_def field_parent_def count_cleared)
  have sh: "field_parent f (showError f m ?t) = cleared (children pf) @ [error_div m]"
    using field_parent_showError(1) [OF now(1) pf, of f m] own by simp
  have cl: "field_parent f (clearError f ?t) = cleared (children pf)"
    using field_parent_clearError(1) [OF now(1) pf, of f] own by simp
  from now(2) [of g] c0 show ?thesis
    by (simp add: error_count_def sh cl count_class_append count_error_div
        get_input_showError get_input_clearError)
       (simp add: error_div_def)
qed

lemma grouped_page_unnested: "fields_unnested grouped_page"
  by (simp add: fields_unnested_def all_fields_def unnested_def grouped_page_def)

lemma shared_page_unnested: "fields_unnested shared_page"
  by (simp add: fields_unnested_def all_fields_def unnested_def shared_page_def)

theorem one_error_message_per_field_witness:
  "field_parent NameField
     (run_outcomes [Failed NameField name_message, Failed EmailField email_message,
                    Failed NameField name_message]
        (form_on shared_page (js ''A'') (js ''bad-email'') (js ''1234567890''))) =
     [Elem [] [''error-message'']
        [(''color'', ''#d32f2f''), (''fontSize'', ''0.875rem''), (''marginTop'', ''0.25rem'')]
        ''Name must be at least 2 characters long'' []] \<and>
   error_count EmailField
     (run_outcomes [Failed NameField name_message, Failed EmailField email_message,
                    Failed NameField name_message]
        (form_on shared_page (js ''A'') (js ''bad-email'') (js ''1234567890''))) = 1 \<and>
   error_count NameField (showError NameField name_message
     (run_outcomes [Failed NameField name_message, Failed EmailField email_message,
                    Failed NameField name_message]
        (form_on shared_page (js ''A'') (js ''bad-email'') (js ''1234567890'')))) = 1 \<and>
   error_count NameField (clearError NameField
     (run_outcomes [Failed NameField name_message, Failed EmailField email_message,
                    Failed NameField name_message]
        (form_on shared_page (js ''A'') (js ''bad-email'') (js ''1234567890'')))) = 0"
proof -
  let ?s = "form_on shared_page (js ''A'') (js ''bad-email'') (js ''1234567890'')"
  let ?xs = "[Failed NameField name_message, Failed EmailField email_message,
              Failed NameField name_message]"
  have u: "fields_unnested (roots ?s)"
    by (simp add: form_on_def shared_page_unnested)
  have h: "error_count NameField ?s \<le> 1" "error_count EmailField ?s \<le> 1"
    "error_count MessageField ?s \<le> 1"
    by (simp_all add: form_eval shared_page_def)
  have run: "field_parent NameField (run_outcomes ?xs ?s) =
     [Elem [] [''error-message'']
        [(''color'', ''#d32f2f''), (''fontSize'', ''0.875rem''), (''marginTop'', ''0.25rem'')]
        ''Name must be at least 2 characters long'' []]"
    by (simp add: run_outcomes_def form_eval shared_page_def)
  have e: "error_count EmailField (run_outcomes ?xs ?s) = 1"
    by (simp add: run_outcomes_def form_eval shared_page_def)
  note T = one_error_message_per_field [OF u h, of NameField ?xs NameField name_message]
  from T have a: "error_count NameField (showError NameField name_message
      (run_outcomes ?xs ?s)) = 1" by blast
  from T have b: "error_count NameField (clearError NameField (run_outcomes ?xs ?s)) = 0"
    by blast
  from run e a b show ?thesis by blast
qed

section \<open>Theorems: validation and submission\<close>

text \<open>
  C5: validateEmail accepts exactly when the trimmed value contains no whitespace,
  contains exactly one \<^verbatim>\<open>@\<close>, has a non-empty part before it, and has in the part
  after it some \<^verbatim>\<open>.\<close> with a non-empty segment on both sides.
\<close>

theorem validateEmail_accepts_pattern:
  "snd (validateEmail s) = email_pattern_spec (js_trim (val (emailInput s)))"
  by (simp add: validateEmail_cases)

theorem validateEmail_accepts_pattern_witness:
  "snd (validateEmail (contact_form (js ''Ann'') (js ''bad-email'') (js ''1234567890''))) = False \<and>
   snd (validateEmail (contact_form (js ''Ann'') (js '' a@b.co'') (js ''1234567890''))) = True"
proof -
  have 1: "\<not> email_pattern_spec (js_trim (val (emailInput
              (contact_form (js ''Ann'') (js ''bad-email'') (js ''1234567890'')))))"
    by (simp add: form_eval)
  have 2: "email_pattern_spec (js_trim (val (emailInput
              (contact_form (js ''Ann'') (js '' a@b.co'') (js ''1234567890'')))))"
    by (simp add: form_eval)
  show ?thesis
    using validateEmail_accepts_pattern
        [of "contact_form (js ''Ann'') (js ''bad-email'') (js ''1234567890'')"]
      validateEmail_accepts_pattern
        [of "contact_form (js ''Ann'') (js '' a@b.co'') (js ''1234567890'')"] 1 2
    by simp
qed

lemma validate_rest:
  "submitBtn (fst (validateName s)) = submitBtn s" "timers (fst (validateName s)) = timers s"
  "form_messages (fst (validateName s)) = form_messages s"
  "submitBtn (fst (validateEmail s)) = submitBtn s" "timers (fst (validateEmail s)) = timers s"
  "form_messages (fst (validateEmail s)) = form_messages s"
  "submitBtn (fst (validateMessage s)) = submitBtn s" "timers (fst (validateMessage s)) = timers s"
  "form_messages (fst (validateMessage s)) = form_messages s"
  by (simp_all add: validateName_cases validateEmail_cases validateMessage_cases
      rest_showError rest_clearError)

lemma validate_name_input:
  "nameInput (fst (validateEmail s)) = nameInput s"
  "nameInput (fst (validateMessage s)) = nameInput s"
  by (simp_all add: validateEmail_cases validateMessage_cases input_clearError input_showError)

lemma submit_handler_blocked:
  assumes "snd (validateName s) = False"
  shows "submit_handler s =
           (fst (validateMessage (fst (validateEmail (fst (validateName s))))), Blocked)"
  using assms by (simp add: submit_handler_def Let_def split_beta)

lemma parent_of_None_iff: "parent_of f page = None \<longleftrightarrow> f \<notin> set (controls_in page)"
  by (induction f page rule: parent_of.induct) (auto split: option.splits)

lemma controls_children:
  "parent_of f page = Some p \<Longrightarrow> set (controls_in (children p)) \<subseteq> set (controls_in page)"
  by (induction f page rule: parent_of.induct) (auto split: if_splits option.splits)

lemma controls_set_children:
  "parent_of f page = Some pf \<Longrightarrow> set (controls_in new) \<subseteq> set (controls_in (children pf)) \<Longrightarrow>
     set (controls_in (set_children f new page)) \<subseteq> set (controls_in page)"
proof (induction f page rule: parent_of.induct)
  case (1 f)
  then show ?case by simp
next
  case (2 f fs cs st tx kids es)
  show ?case
  proof (cases "f \<in> set fs")
    case True
    with "2.prems" show ?thesis by auto
  next
    case out: False
    show ?thesis
    proof (cases "parent_of f kids")
      case (Some p)
      with out "2.prems" "2.IH"(1) show ?thesis by auto
    next
      case None
      with out "2.prems" "2.IH"(2) show ?thesis by auto
    qed
  qed
qed

lemma controls_set_children_any:
  "set (controls_in (set_children f new page)) \<subseteq> set (controls_in page) \<union> set (controls_in new)"
  by (induction f new page rule: set_children.induct) (auto split: option.splits)

lemma outside_append: "outside n g (a @ b) = (outside n g a \<and> outside n g b)"
  by (induction n g a rule: outside.induct) auto

lemma outside_detach:
  "query_detach cls es = Some (gone, es') \<Longrightarrow> outside n g es \<Longrightarrow>
     outside n g es' \<and> outside n g [gone]"
proof (induction cls es arbitrary: gone es' rule: query_detach.induct)
  case (1 cls)
  then show ?case by simp
next
  case (2 cls fs cs st tx kids es)
  show ?case
  proof (cases "cls \<in> set cs")
    case True
    with "2.prems" show ?thesis by auto
  next
    case out: False
    show ?thesis
    proof (cases "query_detach cls kids")
      case (Some r)
      obtain g1 kids' where r: "r = (g1, kids')" by (cases r)
      from "2.prems"(2) have ok: "outside n g kids" by simp
      from "2.IH"(1) [OF out] Some r ok have i: "outside n g kids' \<and> outside n g [g1]"
        by simp
      from query_detach_Some [of cls kids g1 kids'] Some r
      have sub: "set (controls_in kids') \<subseteq> set (controls_in kids)" by simp
      from out Some r "2.prems"(1) have e: "gone = g1" "es' = Elem fs cs st tx kids' # es"
        by simp_all
      from i sub "2.prems"(2) show ?thesis unfolding e by auto
    next
      case None
      with out "2.prems"(1) obtain es1 where q: "query_detach cls es = Some (gone, es1)"
        and e: "es' = Elem fs cs st tx kids # es1"
        by (auto split: option.splits)
      from "2.prems"(2) have ok: "outside n g es" by simp
      from "2.IH"(2) [OF out None q ok] "2.prems"(2) show ?thesis unfolding e by auto
    qed
  qed
qed

lemma outside_cleared: "outside n g es \<Longrightarrow> outside n g (cleared es) \<and> outside n g (detached_by es)"
  using outside_detach [of "''error-message''" es]
  by (auto simp: cleared_def detached_by_def split: option.splits)

lemma outside_children:
  "parent_of f page = Some p \<Longrightarrow> outside n g page \<Longrightarrow> outside n g (children p)"
  by (induction f page rule: parent_of.induct) (auto split: if_splits option.splits)

lemma outside_first:
  "parent_of g page = Some pg \<Longrightarrow> outside n g page \<Longrightarrow>
     n \<notin> set (controls pg) \<and> n \<notin> set (controls_in (children pg))"
  by (induction g page rule: parent_of.induct) (auto split: if_splits option.splits)

lemma outside_set_children:
  "parent_of f page = Some pf \<Longrightarrow> set (controls_in new) \<subseteq> set (controls_in (children pf)) \<Longrightarrow>
     outside n g page \<Longrightarrow> outside n g new \<Longrightarrow> outside n g (set_children f new page)"
proof (induction f page rule: parent_of.induct)
  case (1 f)
  then show ?case by simp
next
  case (2 f fs cs st tx kids es)
  show ?case
  proof (cases "f \<in> set fs")
    case True
    with "2.prems"(1) have "pf = Elem fs cs st tx kids" by simp
    with "2.prems"(2) have "set (controls_in new) \<subseteq> set (controls_in kids)" by simp
    with True "2.prems"(3,4) show ?thesis by (auto dest: subsetD)
  next
    case out: False
    show ?thesis
    proof (cases "parent_of f kids")
      case (Some p)
      with out "2.prems"(1) have p: "p = pf" by simp
      from controls_set_children [of f kids pf new] Some p "2.prems"(2)
      have sub: "set (controls_in (set_children f new kids)) \<subseteq> set (controls_in kids)" by simp
      from "2.IH"(1) [OF out] Some p "2.prems"
      have "outside n g (set_children f new kids)" by simp
      with out Some sub "2.prems"(3) show ?thesis by auto
    next
      case None
      with out "2.prems" "2.IH"(2) show ?thesis by auto
    qed
  qed
qed

text \<open>
  An edit of the children of another control's parent, which lies neither at nor above
  the parent of control \<open>n\<close>, leaves the last child of the parent of \<open>n\<close> in place when
  that child is an element without controls.
\<close>

lemma last_child_kept:
  assumes "parent_of n page = Some pn" and "children pn \<noteq> []"
    and "last (children pn) = d" and "controls_in [d] = []"
    and "\<And>pg. parent_of g page = Some pg \<Longrightarrow>
           n \<notin> set (controls pg) \<and> n \<notin> set (controls_in (children pg))"
    and "n \<notin> set (controls_in new)"
  shows "\<exists>pn'. parent_of n (set_children g new page) = Some pn' \<and>
               children pn' \<noteq> [] \<and> last (children pn') = d"
  using assms
proof (induction g page rule: parent_of.induct)
  case (1 g)
  then show ?case by simp
next
  case (2 g fs cs st tx kids es)
  show ?case
  proof (cases "g \<in> set fs")
    case True
    with "2.prems"(5) [of "Elem fs cs st tx kids"]
    have n: "n \<notin> set fs" "n \<notin> set (controls_in kids)" by simp_all
    then have "parent_of n kids = None" by (simp add: parent_of_None_iff)
    with n "2.prems"(1) have "parent_of n es = Some pn" by simp
    moreover from "2.prems"(6) have "parent_of n new = None" by (simp add: parent_of_None_iff)
    ultimately show ?thesis using True n "2.prems"(2,3) by simp
  next
    case gout: False
    show ?thesis
    proof (cases "parent_of g kids")
      case (Some pg)
      show ?thesis
      proof (cases "n \<in> set fs")
        case True
        with "2.prems"(1) have pn: "pn = Elem fs cs st tx kids" by simp
        with "2.prems"(2,3) have k: "kids = butlast kids @ [d]"
          using append_butlast_last_id [of kids] by simp
        from "2.prems"(4) have "parent_of g [d] = None"
          by (simp add: parent_of_None_iff)
        with Some k have "parent_of g (butlast kids) \<noteq> None"
          by (metis option.simps(3) option.simps(4) parent_of_append)
        then have "set_children g new (butlast kids @ [d]) = set_children g new (butlast kids) @ [d]"
          by (rule set_children_append)
        with k have "set_children g new kids = set_children g new (butlast kids) @ [d]"
          by simp
        with True gout Some show ?thesis by simp
      next
        case nout: False
        show ?thesis
        proof (cases "parent_of n kids")
          case inner: (Some q)
          with nout "2.prems"(1) have q: "q = pn" by simp
          have "\<exists>pn'. parent_of n (set_children g new kids) = Some pn' \<and>
                  children pn' \<noteq> [] \<and> last (children pn') = d"
          proof (rule "2.IH"(1) [OF gout _ "2.prems"(2,3,4) _ "2.prems"(6)])
            from inner q show "parent_of n kids = Some pn" by simp
          next
            fix p assume "parent_of g kids = Some p"
            with gout have "parent_of g (Elem fs cs st tx kids # es) = Some p" by simp
            then show "n \<notin> set (controls p) \<and> n \<notin> set (controls_in (children p))"
              by (rule "2.prems"(5))
          qed
          with gout Some nout show ?thesis by auto
        next
          case None
          with nout "2.prems"(1) have e: "parent_of n es = Some pn" by simp
          from None have a: "n \<notin> set (controls_in kids)" by (simp add: parent_of_None_iff)
          from Some "2.prems"(5) [of pg] gout
          have b: "n \<notin> set (controls_in (children pg))" by simp
          have "set (controls_in (set_children g new kids)) \<subseteq>
                  set (controls_in kids) \<union> set (controls_in new)"
            by (rule controls_set_children_any)
          with a "2.prems"(6) have "n \<notin> set (controls_in (set_children g new kids))" by blast
          then have "parent_of n (set_children g new kids) = None"
            by (simp add: parent_of_None_iff)
          with gout Some nout e "2.prems"(2,3) show ?thesis by simp
        qed
      qed
    next
      case None
      show ?thesis
      proof (cases "n \<in> set fs \<or> parent_of n kids \<noteq> None")
        case True
        with gout None "2.prems"(1,2,3) show ?thesis by (auto split: option.splits)
      next
        case False
        then have nout: "n \<notin> set fs" and nk: "parent_of n kids = None" by simp_all
        with "2.prems"(1) have e: "parent_of n es = Some pn" by simp
        have "\<exists>pn'. parent_of n (set_children g new es) = Some pn' \<and>
                children pn' \<noteq> [] \<and> last (children pn') = d"
        proof (rule "2.IH"(2) [OF gout None e "2.prems"(2,3,4) _ "2.prems"(6)])
          fix p assume "parent_of g es = Some p"
          with gout None have "parent_of g (Elem fs cs st tx kids # es) = Some p" by simp
          then show "n \<notin> set (controls p) \<and> n \<notin> set (controls_in (children p))"
            by (rule "2.prems"(5))
        qed
        with gout None nout nk show ?thesis by simp
      qed
    qed
  qed
qed

lemma roots_unplaced:
  assumes "parent_of f (roots s) = None"
  shows "roots (clearError f s) = roots s" and "roots (showError f m s) = roots s"
proof -
  show c: "roots (clearError f s) = roots s"
    using assms by (simp add: clearError_def Let_def set_input_rest)
  with assms have "parent_of f (roots (clearError f s)) = None" by simp
  with c show "roots (showError f m s) = roots s"
    by (simp add: showError_def Let_def set_input_rest)
qed

lemma outside_error_div: "outside n g [error_div m]"
  by (simp add: error_div_def)

lemma outside_edit:
  assumes pf: "parent_of f page = Some pf" and o: "outside n g page"
  shows "outside n g (set_children f (cleared (children pf)) page)"
    and "outside n g (set_children f (cleared (children pf) @ [error_div m]) page)"
    and "outside n g (detached_by (children pf))"
proof -
  from outside_children [OF pf o] have k: "outside n g (children pf)" .
  from outside_cleared [OF k] have c: "outside n g (cleared (children pf))"
    and d: "outside n g (detached_by (children pf))" by simp_all
  show "outside n g (set_children f (cleared (children pf)) page)"
    by (rule outside_set_children [OF pf controls_cleared o c])
  have sub: "set (controls_in (cleared (children pf) @ [error_div m]))
               \<subseteq> set (controls_in (children pf))"
    using controls_cleared [of "children pf"]
    by (simp add: controls_in_append controls_error_div)
  show "outside n g (set_children f (cleared (children pf) @ [error_div m]) page)"
    by (rule outside_set_children [OF pf sub o])
       (simp add: outside_append c outside_error_div)
  show "outside n g (detached_by (children pf))" by (rule d)
qed

lemma roots_clearError_detached:
  assumes "parent_of f (roots s) = Some p"
  shows "roots (clearError f s) =
           set_children f (cleared (children p)) (roots s) @ detached_by (children p)"
proof (cases "query_detach ''error-message'' (children p)")
  case None
  with assms have "roots (clearError f s) = roots s"
    by (simp add: clearError_def Let_def set_input_rest)
  moreover from None have "cleared (children p) = children p" "detached_by (children p) = []"
    by (simp_all add: cleared_def detached_by_def)
  ultimately show ?thesis
    using set_children_same [OF assms] by simp
next
  case (Some r)
  obtain gone kids where r: "r = (gone, kids)" by (cases r)
  with Some assms have "roots (clearError f s) = set_children f kids (roots s) @ [gone]"
    by (simp add: clearError_def Let_def set_input_rest)
  moreover from Some r have "cleared (children p) = kids" "detached_by (children p) = [gone]"
    by (simp_all add: cleared_def detached_by_def)
  ultimately show ?thesis by simp
qed

lemma roots_showError_detached:
  assumes "parent_of f (roots s) = Some p"
  shows "roots (showError f m s) =
           set_children f (cleared (children p) @ [error_div m]) (roots s) @
           detached_by (children p)"
proof -
  note c = roots_clearError_detached [OF assms]
  let ?p1 = "Elem (controls p) (classes p) (style p) (textContent p) (cleared (children p))"
  have p1: "parent_of f (roots (clearError f s)) = Some ?p1"
    by (simp add: c parent_of_append parent_of_set_children [OF assms])
  have ne: "parent_of f (set_children f (cleared (children p)) (roots s)) \<noteq> None"
    by (simp add: parent_of_set_children [OF assms])
  have "roots (showError f m s) =
          set_children f (cleared (children p) @ [error_div m]) (roots (clearError f s))"
    using p1 by (simp add: showError_def Let_def set_input_rest)
  also have "\<dots> = set_children f (cleared (children p) @ [error_div m])
                    (set_children f (cleared (children p)) (roots s)) @ detached_by (children p)"
    by (simp add: c set_children_append [OF ne])
  also have "\<dots> = set_children f (cleared (children p) @ [error_div m]) (roots s) @
                    detached_by (children p)"
    using assms by (simp add: set_children_twice)
  finally show ?thesis .
qed

text \<open>
  An error shown or cleared for any field keeps control \<open>n\<close> outside the parents of
  control \<open>g\<close>.
\<close>

lemma outside_kept:
  assumes "outside n g (roots s)"
  shows "outside n g (roots (clearError f s))" and "outside n g (roots (showError f m s))"
proof -
  show "outside n g (roots (clearError f s))"
  proof (cases "parent_of f (roots s)")
    case None
    with assms show ?thesis by (simp add: roots_unplaced)
  next
    case (Some pf)
    from outside_edit(1,3) [OF Some assms] show ?thesis
      by (simp add: roots_clearError_detached [OF Some] outside_append)
  qed
  show "outside n g (roots (showError f m s))"
  proof (cases "parent_of f (roots s)")
    case None
    with assms show ?thesis by (simp add: roots_unplaced)
  next
    case (Some pf)
    from outside_edit(2,3) [OF Some assms] show ?thesis
      by (simp add: roots_showError_detached [OF Some] outside_append)
  qed
qed

text \<open>
  An error shown or cleared for a field \<open>g\<close> leaves a message that is the last child of
  the parent of \<open>n\<close> in its place, when \<open>n\<close> lies outside the parents of \<open>g\<close>.
\<close>

lemma message_kept:
  assumes ne: "field_parent n t \<noteq> []" and l: "last (field_parent n t) = error_div m"
    and o: "outside n g (roots t)"
  shows "field_parent n (clearError g t) \<noteq> [] \<and>
         last (field_parent n (clearError g t)) = error_div m"
    and "field_parent n (showError g m' t) \<noteq> [] \<and>
         last (field_parent n (showError g m' t)) = error_div m"
proof -
  from ne obtain pn where pn: "parent_of n (roots t) = Some pn"
    by (auto simp: field_parent_def split: option.splits)
  with ne l have k: "children pn \<noteq> []" "last (children pn) = error_div m"
    by (simp_all add: field_parent_def)
  have both: "(field_parent n (clearError g t) \<noteq> [] \<and>
               last (field_parent n (clearError g t)) = error_div m) \<and>
              (field_parent n (showError g m' t) \<noteq> [] \<and>
               last (field_parent n (showError g m' t)) = error_div m)"
  proof (cases "parent_of g (roots t)")
    case None
    with ne l show ?thesis by (simp add: field_parent_def roots_unplaced)
  next
    case (Some pg)
    from outside_first [OF Some o]
    have out: "n \<notin> set (controls pg)" "n \<notin> set (controls_in (children pg))" by simp_all
    have first: "parent_of g (roots t) = Some p \<Longrightarrow>
        n \<notin> set (controls p) \<and> n \<notin> set (controls_in (children p))" for p
      using Some out by simp
    from out(2) controls_cleared [of "children pg"]
    have c1: "n \<notin> set (controls_in (cleared (children pg)))" by blast
    then have c2: "n \<notin> set (controls_in (cleared (children pg) @ [error_div m']))"
      by (simp add: controls_in_append controls_error_div)
    from last_child_kept [OF pn k controls_error_div first c1]
    obtain p1 where p1: "parent_of n (set_children g (cleared (children pg)) (roots t)) = Some p1"
      "children p1 \<noteq> []" "last (children p1) = error_div m" by blast
    from last_child_kept [OF pn k controls_error_div first c2]
    obtain p2 where p2:
      "parent_of n (set_children g (cleared (children pg) @ [error_div m']) (roots t)) = Some p2"
      "children p2 \<noteq> []" "last (children p2) = error_div m" by blast
    from p1 p2 show ?thesis
      by (simp add: field_parent_def roots_clearError_detached [OF Some]
          roots_showError_detached [OF Some] parent_of_append)
  qed
  from both show "field_parent n (clearError g t) \<noteq> [] \<and>
         last (field_parent n (clearError g t)) = error_div m" by blast
  from both show "field_parent n (showError g m' t) \<noteq> [] \<and>
         last (field_parent n (showError g m' t)) = error_div m" by blast
qed

lemma shown_last:
  assumes "parent_of f (roots s) \<noteq> None"
  shows "field_parent f (showError f m s) \<noteq> [] \<and>
         last (field_parent f (showError f m s)) = error_div m"
proof -
  from assms obtain p where p: "parent_of f (roots s) = Some p" by blast
  show ?thesis
    by (simp add: field_parent_def roots_showError_detached [OF p] parent_of_append
        parent_of_set_children [OF p])
qed

text \<open>
  C3, as stated, fails. When the three inputs are children of one element, the name
  error created by \<^verbatim>\<open>validateName\<close> is the first error message below that element,
  so the \<^verbatim>\<open>clearError\<close> call of \<^verbatim>\<open>validateEmail\<close> removes it: with the name
  \<^verbatim>\<open>A\<close> and a valid email and message the submission is blocked, yet when the handler
  returns no error message is left under the name field's parent; the element that was
  created lies detached from the document.
\<close>

theorem short_name_counterexample:
  "length (js_trim (val (nameInput
      (form_on shared_page (js ''A'') (js ''ann@example.org'') (js ''1234567890''))))) = 1 \<and>
   field_parent NameField (fst (validateName
      (form_on shared_page (js ''A'') (js ''ann@example.org'') (js ''1234567890'')))) =
     [Elem [] [''error-message'']
        [(''color'', ''#d32f2f''), (''fontSize'', ''0.875rem''), (''marginTop'', ''0.25rem'')]
        ''Name must be at least 2 characters long'' []] \<and>
   field_parent NameField (fst (validateEmail (fst (validateName
      (form_on shared_page (js ''A'') (js ''ann@example.org'') (js ''1234567890'')))))) = [] \<and>
   snd (submit_handler
      (form_on shared_page (js ''A'') (js ''ann@example.org'') (js ''1234567890''))) = Blocked \<and>
   field_parent NameField (fst (submit_handler
      (form_on shared_page (js ''A'') (js ''ann@example.org'') (js ''1234567890'')))) = [] \<and>
   roots (fst (submit_handler
      (form_on shared_page (js ''A'') (js ''ann@example.org'') (js ''1234567890'')))) =
     [Elem [NameField, EmailField, MessageField] [''contact-form''] [] [] [],
      Elem [] [''error-message'']
        [(''color'', ''#d32f2f''), (''fontSize'', ''0.875rem''), (''marginTop'', ''0.25rem'')]
        ''Name must be at least 2 characters long'' []]"
  by (simp add: submit_handler_def form_eval shared_page_def)

text \<open>
  C3, amended: when the trimmed name has length 1, \<^verbatim>\<open>validateName\<close> fails and
  creates the name error message (class \<^verbatim>\<open>error-message\<close>, the text about two
  characters) as the last child of the name field's parent; the submit handler returns
  early after the three validations, with the error border on the name input and with
  the submit button (label and disabled flag), the pending timers and the banners as
  before the submission. That much holds on every page on which the name input has a
  parent. On a page where, in addition, the name input lies outside the parents of the
  email and message inputs (it is not a child of the element that has the email or the
  message input as a child, nor anywhere below that element), the message is still the
  last child of the name field's parent when the handler returns.
\<close>

theorem short_name_blocks_submission:
  assumes len: "length (js_trim (val (nameInput s))) = 1"
  shows "validateName s = (showError NameField name_message s, False) \<and>
         submit_handler s =
           (fst (validateMessage (fst (validateEmail (showError NameField name_message s)))),
            Blocked) \<and>
         submitBtn (fst (submit_handler s)) = submitBtn s \<and>
         timers (fst (submit_handler s)) = timers s \<and>
         form_messages (fst (submit_handler s)) = form_messages s \<and>
         borderColor (nameInput (fst (submit_handler s))) = ''#d32f2f'' \<and>
         (parent_of NameField (roots s) \<noteq> None \<longrightarrow>
            field_parent NameField (showError NameField name_message s) \<noteq> [] \<and>
            last (field_parent NameField (showError NameField name_message s)) =
              Elem [] [''error-message'']
                [(''color'', ''#d32f2f''), (''fontSize'', ''0.875rem''), (''marginTop'', ''0.25rem'')]
                ''Name must be at least 2 characters long'' []) \<and>
         (parent_of NameField (roots s) \<noteq> None \<and>
          outside NameField EmailField (roots s) \<and>
          outside NameField MessageField (roots s) \<longrightarrow>
            field_parent NameField (fst (submit_handler s)) \<noteq> [] \<and>
            last (field_parent NameField (fst (submit_handler s))) =
              Elem [] [''error-message'']
                [(''color'', ''#d32f2f''), (''fontSize'', ''0.875rem''), (''marginTop'', ''0.25rem'')]
                ''Name must be at least 2 characters long'' [])"
proof -
  let ?s1 = "showError NameField name_message s"
  let ?s2 = "fst (validateEmail ?s1)"
  let ?s3 = "fst (validateMessage ?s2)"
  let ?div = "Elem [] [''error-message'']
             [(''color'', ''#d32f2f''), (''fontSize'', ''0.875rem''), (''marginTop'', ''0.25rem'')]
             ''Name must be at least 2 characters long'' []"
  have d: "error_div name_message = ?div"
    by (simp add: error_div_def name_message_def)
  have v: "validateName s = (?s1, False)"
    using len by (simp add: validateName_cases)
  have sub: "submit_handler s = (?s3, Blocked)"
    using submit_handler_blocked [of s] v by simp
  have rest: "submitBtn (fst (submit_handler s)) = submitBtn s"
    "timers (fst (submit_handler s)) = timers s"
    "form_messages (fst (submit_handler s)) = form_messages s"
    by (simp_all add: sub validate_rest rest_showError)
  have border: "borderColor (nameInput (fst (submit_handler s))) = ''#d32f2f''"
    by (simp add: sub validate_name_input input_showError)
  have shown: "field_parent NameField ?s1 \<noteq> [] \<and> last (field_parent NameField ?s1) = ?div"
    if placed: "parent_of NameField (roots s) \<noteq> None"
    using shown_last [OF placed, of name_message] by (simp add: d)
  have kept: "field_parent NameField (fst (submit_handler s)) \<noteq> [] \<and>
              last (field_parent NameField (fst (submit_handler s))) = ?div"
    if page: "parent_of NameField (roots s) \<noteq> None \<and> outside NameField EmailField (roots s) \<and>
              outside NameField MessageField (roots s)"
  proof -
    from page have placed: "parent_of NameField (roots s) \<noteq> None"
      and oe: "outside NameField EmailField (roots s)"
      and om: "outside NameField MessageField (roots s)" by simp_all
    note k1 = shown_last [OF placed, of name_message]
    have oe1: "outside NameField EmailField (roots ?s1)"
      by (rule outside_kept(2) [OF oe])
    have om1: "outside NameField MessageField (roots ?s1)"
      by (rule outside_kept(2) [OF om])
    have k2: "field_parent NameField ?s2 \<noteq> [] \<and>
              last (field_parent NameField ?s2) = error_div name_message"
      using message_kept [OF conjunct1 [OF k1] conjunct2 [OF k1] oe1]
      by (simp add: validateEmail_cases)
    have om2: "outside NameField MessageField (roots ?s2)"
      using outside_kept [OF om1] by (simp add: validateEmail_cases)
    have k3: "field_parent NameField ?s3 \<noteq> [] \<and>
              last (field_parent NameField ?s3) = error_div name_message"
      using message_kept [OF conjunct1 [OF k2] conjunct2 [OF k2] om2]
      by (simp add: validateMessage_cases)
    then show ?thesis by (simp add: sub d)
  qed
  from v sub rest border shown kept show ?thesis by blast
qed

theorem short_name_blocks_submission_witness:
  "length (js_trim (val (nameInput
      (form_on nested_page (js ''A'') (js ''ann@example.org'') (js ''1234567890''))))) = 1 \<and>
   parent_of NameField (roots
      (form_on nested_page (js ''A'') (js ''ann@example.org'') (js ''1234567890''))) \<noteq> None \<and>
   outside NameField EmailField (roots
      (form_on nested_page (js ''A'') (js ''ann@example.org'') (js ''1234567890''))) \<and>
   outside NameField MessageField (roots
      (form_on nested_page (js ''A'') (js ''ann@example.org'') (js ''1234567890''))) \<and>
   snd (submit_handler
      (form_on nested_page (js ''A'') (js ''ann@example.org'') (js ''1234567890''))) = Blocked \<and>
   submitBtn (fst (submit_handler
      (form_on nested_page (js ''A'') (js ''ann@example.org'') (js ''1234567890'')))) =
     Some \<lparr>btn_text = ''Send Message'', disabled = False\<rparr> \<and>
   timers (fst (submit_handler
      (form_on nested_page (js ''A'') (js ''ann@example.org'') (js ''1234567890'')))) = [] \<and>
   field_parent NameField (fst (validateName
      (form_on nested_page (js ''A'') (js ''ann@example.org'') (js ''1234567890'')))) =
     [Elem [EmailField] [''form-row''] [] [] [],
      Elem [MessageField] [''form-row''] [] [] [],
      Elem [] [''error-message'']
        [(''color'', ''#d32f2f''), (''fontSize'', ''0.875rem''), (''marginTop'', ''0.25rem'')]
        ''Name must be at least 2 characters long'' []] \<and>
   field_parent NameField (fst (submit_handler
      (form_on nested_page (js ''A'') (js ''ann@example.org'') (js ''1234567890'')))) =
     [Elem [EmailField] [''form-row''] [] [] [],
      Elem [MessageField] [''form-row''] [] [] [],
      Elem [] [''error-message'']
        [(''color'', ''#d32f2f''), (''fontSize'', ''0.875rem''), (''marginTop'', ''0.25rem'')]
        ''Name must be at least 2 characters long'' []] \<and>
   last (field_parent NameField (fst (submit_handler
      (contact_form (js ''A'') (js ''ann@example.org'') (js ''1234567890''))))) =
     Elem [] [''error-message'']
        [(''color'', ''#d32f2f''), (''fontSize'', ''0.875rem''), (''marginTop'', ''0.25rem'')]
        ''Name must be at least 2 characters long'' []"
proof -
  let ?s = "form_on nested_page (js ''A'') (js ''ann@example.org'') (js ''1234567890'')"
  let ?c = "contact_form (js ''A'') (js ''ann@example.org'') (js ''1234567890'')"
  let ?div = "Elem [] [''error-message'']
        [(''color'', ''#d32f2f''), (''fontSize'', ''0.875rem''), (''marginTop'', ''0.25rem'')]
        ''Name must be at least 2 characters long'' []"
  have h: "length (js_trim (val (nameInput ?s))) = 1"
    by (simp add: form_eval)
  have p: "parent_of NameField (roots ?s) \<noteq> None"
    and oe: "outside NameField EmailField (roots ?s)"
    and om: "outside NameField MessageField (roots ?s)"
    by (simp_all add: form_on_def nested_page_def)
  have hc: "length (js_trim (val (nameInput ?c))) = 1"
    by (simp add: form_eval)
  have pc: "parent_of NameField (roots ?c) \<noteq> None"
    and oec: "outside NameField EmailField (roots ?c)"
    and omc: "outside NameField MessageField (roots ?c)"
    by (simp_all add: contact_form_def form_on_def grouped_page_def)
  have b: "submitBtn ?s = Some \<lparr>btn_text = ''Send Message'', disabled = False\<rparr>"
    "timers ?s = []"
    by (simp_all add: form_on_def)
  have first: "field_parent NameField (fst (validateName ?s)) =
     [Elem [EmailField] [''form-row''] [] [] [], Elem [MessageField] [''form-row''] [] [] [], ?div]"
    by (simp add: form_eval nested_page_def)
  have whole: "field_parent NameField (fst (submit_handler ?s)) =
     [Elem [EmailField] [''form-row''] [] [] [], Elem [MessageField] [''form-row''] [] [] [], ?div]"
    by (simp add: submit_handler_def form_eval nested_page_def)
  note T = short_name_blocks_submission [OF h]
  note U = short_name_blocks_submission [OF hc]
  from T have "submit_handler ?s =
      (fst (validateMessage (fst (validateEmail (showError NameField name_message ?s)))), Blocked)"
    by blast
  then have r: "snd (submit_handler ?s) = Blocked"
    by simp
  from T have "submitBtn (fst (submit_handler ?s)) = submitBtn ?s" by blast
  with b have r1: "submitBtn (fst (submit_handler ?s)) =
      Some \<lparr>btn_text = ''Send Message'', disabled = False\<rparr>"
    by simp
  from T have "timers (fst (submit_handler ?s)) = timers ?s" by blast
  with b have r2: "timers (fst (submit_handler ?s)) = []"
    by simp
  from U pc oec omc have r3: "last (field_parent NameField (fst (submit_handler ?c))) = ?div"
    by blast
  from h p oe om r r1 r2 first whole r3 show ?thesis by blast
qed

text \<open>
  The example of the specification: with name \<^verbatim>\<open>Ann\<close>, email \<^verbatim>\<open>bad-email\<close> and the
  ten-character message \<^verbatim>\<open>1234567890\<close> the submission is blocked and only the email
  field gets an error message.
\<close>

lemma bad_email_shows_only_email_error:
  "snd (submit_handler (contact_form (js ''Ann'') (js ''bad-email'') (js ''1234567890''))) =
     Blocked \<and>
   field_parent NameField (fst (submit_handler
     (contact_form (js ''Ann'') (js ''bad-email'') (js ''1234567890'')))) = [] \<and>
   field_parent EmailField (fst (submit_handler
     (contact_form (js ''Ann'') (js ''bad-email'') (js ''1234567890'')))) =
     [error_div email_message] \<and>
   field_parent MessageField (fst (submit_handler
     (contact_form (js ''Ann'') (js ''bad-email'') (js ''1234567890'')))) = []"
  by (simp add: submit_handler_def form_eval grouped_page_def)








section \<open>Theorems: loading the script\<close>

text \<open>
  C2 at the failing input: on a page that holds every element except the
  scroll-to-top control, \<^verbatim>\<open>js/script.js\<close> stops at
  \<^verbatim>\<open>scrollToTopBtn.addEventListener\<close>. The listeners registered before that
  statement remain; the section highlighting, the smooth scrolling, the reveal and
  lazy-image observers, the lightbox, the form validation, the keyboard navigation, the
  theme toggle and the initialisation on load are never registered, although their own
  elements are all there. On the full page every listener is registered. The theme
  toggle, whose registration is guarded, can be absent without any other loss.
\<close>

theorem missing_scroll_button_aborts_script:
  "load_script script_js (full_page\<lparr>has_scrollToTop := False\<rparr>) =
     Aborted [CursorInit, NavScroll, NavLoad, ScrollTopVisibility] \<and>
   load_script script_js full_page =
     Loaded [CursorInit, NavScroll, NavLoad, ScrollTopVisibility, ScrollTopClick,
             HighlightScroll, SmoothScroll, RevealObserver, GalleryClick, LightboxCloseClick,
             LightboxBackdropClick, LightboxEscape, NameBlur, EmailBlur, MessageBlur,
             FormSubmit, LazyImages, NavKeyboard, DebouncedHighlight, ThemeToggleClick,
             PageInit] \<and>
   load_script script_js (full_page\<lparr>has_themeToggle := False\<rparr>) =
     Loaded [CursorInit, NavScroll, NavLoad, ScrollTopVisibility, ScrollTopClick,
             HighlightScroll, SmoothScroll, RevealObserver, GalleryClick, LightboxCloseClick,
             LightboxBackdropClick, LightboxEscape, NameBlur, EmailBlur, MessageBlur,
             FormSubmit, LazyImages, NavKeyboard, DebouncedHighlight, PageInit] \<and>
   load_script script_module1 (full_page\<lparr>has_scrollToTop := False\<rparr>) =
     Aborted [CursorInit, CursorResize, NavScroll, NavLoad, HamburgerClick, HamburgerTouch,
              NavMenuClick, OutsideClick, MenuResize, MenuCloseOnLoad, ScrollTopVisibility]"
  by (simp add: load_script_def script_js_def script_module1_def full_page_def)

text \<open>
  The same for the other unguarded lookups: without the name input the script stops
  before any form listener, and also before the lazy-image observer, the keyboard
  navigation, the theme toggle and the initialisation on load.
\<close>

lemma missing_name_input_aborts_script:
  "load_script script_js (full_page\<lparr>has_name := False\<rparr>) =
     Aborted [CursorInit, NavScroll, NavLoad, ScrollTopVisibility, ScrollTopClick,
              HighlightScroll, SmoothScroll, RevealObserver, GalleryClick, LightboxCloseClick,
              LightboxBackdropClick, LightboxEscape]"
  by (simp add: load_script_def script_js_def full_page_def)

end
